theory Spec2Isabelle
  imports Main "HOL-Library.Sublist"
begin

section \<open>Severity levels (src/lib/types.ts, enum LogLevel)\<close>

text \<open>
  The numeric enum \<^verbatim>\<open>LogLevel\<close> with its six members and their values.
\<close>

datatype LogLevel = debug | info | warn | error | fatal | silent

fun level_num :: "LogLevel \<Rightarrow> nat" where
  "level_num debug = 10"
| "level_num info = 20"
| "level_num warn = 30"
| "level_num error = 40"
| "level_num fatal = 50"
| "level_num silent = 100"

fun level_name :: "LogLevel \<Rightarrow> string" where
  "level_name debug = ''debug''"
| "level_name info = ''info''"
| "level_name warn = ''warn''"
| "level_name error = ''error''"
| "level_name fatal = ''fatal''"
| "level_name silent = ''silent''"

definition all_levels :: "LogLevel list" where
  "all_levels = [debug, info, warn, error, fatal, silent]"

subsection \<open>Decimal numerals\<close>

definition digit_char :: "nat \<Rightarrow> char" where
  "digit_char d = ''0123456789'' ! (d mod 10)"

fun show_nat :: "nat \<Rightarrow> string" where
  "show_nat n = (if n < 10 then [digit_char n] else show_nat (n div 10) @ [digit_char (n mod 10)])"

declare show_nat.simps [simp del]

definition show_int :: "int \<Rightarrow> string" where
  "show_int i = (if i < 0 then CHR ''-'' # show_nat (nat (- i)) else show_nat (nat i))"

subsection \<open>The enum object at run time\<close>

text \<open>
  The value a \<^verbatim>\<open>logLevel\<close> configuration field can hold at run time. The field is typed
  \<^verbatim>\<open>LogLevel | keyof typeof LogLevel | (string & {})\<close> and optional; the constructor of a
  child logger is fed the parent's already resolved field again, so the values that a
  lookup in the enum object can produce are part of the same type.
\<close>

datatype level_value =
    LvUndefined
  | LvEnum LogLevel
  | LvString string
  | LvObject string

text \<open>
  A numeric TypeScript enum compiles to an ordinary object that maps each member name to
  its number and each number (as a property key) back to the member name. Being an
  ordinary object, it inherits the members of \<^verbatim>\<open>Object.prototype\<close>; the operator
  \<^verbatim>\<open>in\<close> sees own and inherited properties alike.
\<close>

definition Object_prototype_keys :: "string list" where
  "Object_prototype_keys =
     [''constructor'', ''__defineGetter__'', ''__defineSetter__'', ''hasOwnProperty'',
      ''__lookupGetter__'', ''__lookupSetter__'', ''isPrototypeOf'',
      ''propertyIsEnumerable'', ''toString'', ''valueOf'', ''__proto__'',
      ''toLocaleString'']"

definition LogLevel_own :: "(string \<times> level_value) list" where
  "LogLevel_own =
     concat (map (\<lambda>l. [(show_nat (level_num l), LvString (level_name l)),
                         (level_name l, LvEnum l)]) all_levels)"

definition LogLevel_in :: "string \<Rightarrow> bool" where
  "LogLevel_in k = (map_of LogLevel_own k \<noteq> None \<or> k \<in> set Object_prototype_keys)"

definition LogLevel_get :: "string \<Rightarrow> level_value" where
  "LogLevel_get k =
     (case map_of LogLevel_own k of
        Some v \<Rightarrow> v
      | None \<Rightarrow> if k \<in> set Object_prototype_keys then LvObject k else LvUndefined)"

definition level_truthy :: "level_value \<Rightarrow> bool" where
  "level_truthy v = (case v of LvUndefined \<Rightarrow> False | LvString s \<Rightarrow> s \<noteq> [] | _ \<Rightarrow> True)"

text \<open>
  Logger.constructor, lines 16 to 26: the threshold starts as \<^verbatim>\<open>LogLevel.debug\<close>; a
  truthy number is taken as it is, a truthy string that is \<^verbatim>\<open>in LogLevel\<close> is looked
  up in the enum object, everything else leaves the default.
\<close>

definition resolve_logLevel :: "level_value \<Rightarrow> level_value" where
  "resolve_logLevel cfg =
     (if level_truthy cfg then
        (case cfg of
           LvEnum l \<Rightarrow> LvEnum l
         | LvString s \<Rightarrow> if LogLevel_in s then LogLevel_get s else LvEnum debug
         | _ \<Rightarrow> LvEnum debug)
      else LvEnum debug)"

text \<open>
  The comparison \<^verbatim>\<open>verbosity < this.config.logLevel\<close> of Logger.log. Against a number
  it is the numeric order. A string operand is converted to a number first: a plain
  decimal numeral converts to its value, and every other string a resolved threshold can
  hold (the member names of the reverse mapping) converts to NaN; an object operand
  converts through its string form, also to NaN. Every comparison with NaN is false.
\<close>

definition is_digit :: "char \<Rightarrow> bool" where
  "is_digit c = ((48::nat) \<le> of_char c \<and> of_char c \<le> (57::nat))"

definition decimal_value :: "string \<Rightarrow> nat option" where
  "decimal_value s =
     (if s \<noteq> [] \<and> list_all is_digit s
      then Some (foldl (\<lambda>acc c. 10 * acc + (of_char c - 48)) 0 s) else None)"

definition below_threshold :: "LogLevel \<Rightarrow> level_value \<Rightarrow> bool" where
  "below_threshold verbosity thr =
     (case thr of
        LvEnum l \<Rightarrow> level_num verbosity < level_num l
      | LvString s \<Rightarrow> (case decimal_value s of Some n \<Rightarrow> level_num verbosity < n | None \<Rightarrow> False)
      | LvObject k \<Rightarrow> False
      | LvUndefined \<Rightarrow> False)"


section \<open>Run-time values and the object store\<close>

text \<open>
  JavaScript values. Objects live in a store and are referred to by address, so that two
  references can denote the same object and an object can contain itself. Numbers are
  the integer-valued ones; strings are byte strings. Property keys are strings (symbol
  keys are not modelled).
\<close>

type_synonym addr = nat

datatype jsval =
    VUndefined
  | VNull
  | VBool bool
  | VNum int
  | VStr string
  | VBigInt int
  | VSymbol string
  | VRef addr

datatype js_exn = TypeError | RangeError | UserError

text \<open>
  User code that the logger may run (a getter, a \<^verbatim>\<open>toJSON\<close> method) is modelled by
  what a call does: it returns a value or it throws.
\<close>

datatype call_result = Returns jsval | Throws

datatype slot = Data jsval | Getter call_result

text \<open>
  The prototype chain is flattened into the object: an own enumerable property, a
  property that is not enumerable (own or inherited, e.g. a method of the class or the
  \<^verbatim>\<open>message\<close> of an error), or an enumerable property inherited from a prototype.
\<close>

datatype visibility = OwnEnumerable | NonEnumerable | InheritedEnumerable

datatype obj_class =
    OrdinaryObject
  | ArrayObject
  | ErrorObject
  | RegExpObject string string
  | PromiseObject
  | FunctionObject string call_result

type_synonym property = "string \<times> visibility \<times> slot"

record jsobj =
  cls :: obj_class
  props :: "property list"

type_synonym heap = "jsobj list"

definition empty_object :: jsobj where
  "empty_object = \<lparr>cls = OrdinaryObject, props = []\<rparr>"

definition obj_at :: "heap \<Rightarrow> addr \<Rightarrow> jsobj" where
  "obj_at h a = (if a < length h then h ! a else empty_object)"

definition alloc :: "heap \<Rightarrow> jsobj \<Rightarrow> addr \<times> heap" where
  "alloc h ob = (length h, h @ [ob])"

definition truthy :: "jsval \<Rightarrow> bool" where
  "truthy v =
     (case v of
        VUndefined \<Rightarrow> False
      | VNull \<Rightarrow> False
      | VBool b \<Rightarrow> b
      | VNum n \<Rightarrow> n \<noteq> 0
      | VStr s \<Rightarrow> s \<noteq> []
      | VBigInt n \<Rightarrow> n \<noteq> 0
      | VSymbol d \<Rightarrow> True
      | VRef a \<Rightarrow> True)"

datatype js_type =
  TUndefined | TObject | TBoolean | TNumber | TString | TBigint | TSymbol | TFunction

definition is_function :: "heap \<Rightarrow> addr \<Rightarrow> bool" where
  "is_function h a = (case cls (obj_at h a) of FunctionObject src r \<Rightarrow> True | _ \<Rightarrow> False)"

definition typeof :: "heap \<Rightarrow> jsval \<Rightarrow> js_type" where
  "typeof h v =
     (case v of
        VUndefined \<Rightarrow> TUndefined
      | VNull \<Rightarrow> TObject
      | VBool b \<Rightarrow> TBoolean
      | VNum n \<Rightarrow> TNumber
      | VStr s \<Rightarrow> TString
      | VBigInt n \<Rightarrow> TBigint
      | VSymbol d \<Rightarrow> TSymbol
      | VRef a \<Rightarrow> if is_function h a then TFunction else TObject)"

definition instanceof_Error :: "heap \<Rightarrow> jsval \<Rightarrow> bool" where
  "instanceof_Error h v = (case v of VRef a \<Rightarrow> cls (obj_at h a) = ErrorObject | _ \<Rightarrow> False)"

definition isArray :: "heap \<Rightarrow> jsval \<Rightarrow> bool" where
  "isArray h v = (case v of VRef a \<Rightarrow> cls (obj_at h a) = ArrayObject | _ \<Rightarrow> False)"

text \<open>src/lib/utils.ts\<close>

definition isObject :: "heap \<Rightarrow> jsval \<Rightarrow> bool" where
  "isObject h item = (truthy item \<and> typeof h item = TObject \<and> \<not> isArray h item)"

subsection \<open>Object properties\<close>

definition read_slot :: "slot \<Rightarrow> js_exn + jsval" where
  "read_slot s =
     (case s of
        Data v \<Rightarrow> Inr v
      | Getter (Returns v) \<Rightarrow> Inr v
      | Getter Throws \<Rightarrow> Inl UserError)"

text \<open>Reading \<^verbatim>\<open>o[k]\<close>: a missing property reads as undefined, a getter is called.\<close>

definition Get :: "heap \<Rightarrow> addr \<Rightarrow> string \<Rightarrow> js_exn + jsval" where
  "Get h a k =
     (case map_of (props (obj_at h a)) k of
        None \<Rightarrow> Inr VUndefined
      | Some (vis, s) \<Rightarrow> read_slot s)"

text \<open>The operator \<^verbatim>\<open>k in o\<close>: own and inherited properties.\<close>

definition has_property :: "heap \<Rightarrow> addr \<Rightarrow> string \<Rightarrow> bool" where
  "has_property h a k =
     (map_of (props (obj_at h a)) k \<noteq> None \<or> k \<in> set Object_prototype_keys)"

text \<open>
  The order in which an object lists its own keys: array indices first, ascending, then
  the other keys in the order of their creation.
\<close>

definition is_array_index :: "string \<Rightarrow> bool" where
  "is_array_index k =
     (case decimal_value k of
        Some n \<Rightarrow> n < 4294967295 \<and> show_nat n = k
      | None \<Rightarrow> False)"

definition key_order :: "(string \<times> 'a) list \<Rightarrow> (string \<times> 'a) list" where
  "key_order es =
     sort_key (\<lambda>e. the (decimal_value (fst e))) (filter (\<lambda>e. is_array_index (fst e)) es)
     @ filter (\<lambda>e. \<not> is_array_index (fst e)) es"

definition own_enumerable :: "property list \<Rightarrow> (string \<times> slot) list" where
  "own_enumerable ps =
     key_order (map (\<lambda>(k, vis, s). (k, s)) (filter (\<lambda>(k, vis, s). vis = OwnEnumerable) ps))"

text \<open>The keys a \<^verbatim>\<open>for ... in\<close> loop visits: own enumerable ones, then inherited ones.\<close>

definition for_in_keys :: "property list \<Rightarrow> string list" where
  "for_in_keys ps =
     map fst (own_enumerable ps)
     @ map fst (filter (\<lambda>(k, vis, s). vis = InheritedEnumerable) ps)"

text \<open>
  The own enumerable properties that a spread or \<^verbatim>\<open>Object.assign\<close> copies from a
  source value: those of an object, the characters of a string, none otherwise.
\<close>

definition string_entries :: "string \<Rightarrow> (string \<times> slot) list" where
  "string_entries s = map (\<lambda>i. (show_nat i, Data (VStr [s ! i]))) [0 ..< length s]"

definition source_entries :: "heap \<Rightarrow> jsval \<Rightarrow> (string \<times> slot) list" where
  "source_entries h v =
     (case v of
        VRef a \<Rightarrow> own_enumerable (props (obj_at h a))
      | VStr s \<Rightarrow> string_entries s
      | _ \<Rightarrow> [])"

text \<open>
  Creating or overwriting the data property \<open>k\<close> of an object that the code has just
  created (a property definition, or an assignment to an object whose entries are its
  own data properties and that has no entry \<open>k\<close> yet): an existing key keeps its place,
  a new key is added last.
\<close>

fun set_prop :: "property list \<Rightarrow> string \<Rightarrow> jsval \<Rightarrow> property list" where
  "set_prop [] k v = [(k, OwnEnumerable, Data v)]"
| "set_prop ((k', vis, s) # ps) k v =
     (if k' = k then (k', vis, Data v) # ps else (k', vis, s) # set_prop ps k v)"

definition heap_set :: "heap \<Rightarrow> addr \<Rightarrow> string \<Rightarrow> jsval \<Rightarrow> heap" where
  "heap_set h a k v = h[a := (obj_at h a)\<lparr>props := set_prop (props (obj_at h a)) k v\<rparr>]"

text \<open>
  The spread \<^verbatim>\<open>{...source}\<close> into a new object (CopyDataProperties of the language
  standard) defines one property after the other; reading a source property runs its
  getter, whose exception ends the copy.
\<close>

fun copy_entries :: "(string \<times> slot) list \<Rightarrow> property list \<Rightarrow> js_exn + property list" where
  "copy_entries [] t = Inr t"
| "copy_entries ((k, s) # es) t =
     (case read_slot s of
        Inl e \<Rightarrow> Inl e
      | Inr v \<Rightarrow> copy_entries es (set_prop t k v))"

definition CopyDataProperties :: "heap \<Rightarrow> addr \<Rightarrow> jsval \<Rightarrow> (js_exn + unit) \<times> heap" where
  "CopyDataProperties h target source =
     (case copy_entries (source_entries h source) (props (obj_at h target)) of
        Inl e \<Rightarrow> (Inl e, h)
      | Inr ps \<Rightarrow> (Inr (), h[target := (obj_at h target)\<lparr>props := ps\<rparr>]))"

text \<open>
  \<^verbatim>\<open>Object.assign\<close> and an assignment \<^verbatim>\<open>o[k] = v\<close> write with the operation Set of the
  language standard (OrdinarySet), which looks at what the target inherits. The targets
  are objects that the logger and the formatter have created: their own properties are
  the enumerable entries, every other entry is inherited.
\<close>

definition own_part :: "property list \<Rightarrow> property list" where
  "own_part t = filter (\<lambda>(k, vis, s). vis = OwnEnumerable) t"

definition inherited_part :: "property list \<Rightarrow> property list" where
  "inherited_part t = filter (\<lambda>(k, vis, s). vis \<noteq> OwnEnumerable) t"

text \<open>The properties of a prototype as the entries that an object inherits from it.\<close>

definition as_inherited :: "property list \<Rightarrow> property list" where
  "as_inherited ps =
     map (\<lambda>(k, vis, s). (k, (if vis = OwnEnumerable then InheritedEnumerable else vis), s)) ps"

text \<open>
  An own data property is written in place. A key that is new, or that is inherited as a
  data property, becomes an own property, added last. An accessor without a setter, own
  or inherited, refuses the write with a TypeError (the strict form of Set, which
  \<^verbatim>\<open>Object.assign\<close> and the code of a module use). The key \<^verbatim>\<open>__proto__\<close>, when no
  entry of the target has that name, reaches the accessor that every ordinary object
  inherits from \<^verbatim>\<open>Object.prototype\<close>: its setter creates no property, ignores a value
  that is neither an object nor null, and makes any other value the prototype of the
  target, whose inherited entries are from then on those of that prototype; it refuses
  the target as its own prototype.
\<close>

definition OrdinarySet ::
  "heap \<Rightarrow> addr \<Rightarrow> property list \<Rightarrow> string \<Rightarrow> jsval \<Rightarrow> js_exn + property list" where
  "OrdinarySet h target t k v =
     (case map_of (own_part t @ inherited_part t) k of
        Some (vis, Getter g) \<Rightarrow> Inl TypeError
      | Some (vis, Data x) \<Rightarrow> Inr (set_prop (own_part t) k v @ inherited_part t)
      | None \<Rightarrow>
          if k = ''__proto__'' then
            (case v of
               VRef p \<Rightarrow>
                 if p = target then Inl TypeError
                 else Inr (own_part t @ as_inherited (props (obj_at h p)))
             | VNull \<Rightarrow> Inr (own_part t)
             | _ \<Rightarrow> Inr t)
          else Inr (set_prop (own_part t) k v @ inherited_part t))"

text \<open>
  The loop of \<^verbatim>\<open>Object.assign(target, source)\<close> over the own enumerable properties of
  the source: each is read, which runs its getter, and written to the target.
\<close>

fun assign_entries ::
  "heap \<Rightarrow> addr \<Rightarrow> (string \<times> slot) list \<Rightarrow> property list \<Rightarrow> js_exn + property list" where
  "assign_entries h target [] t = Inr t"
| "assign_entries h target ((k, s) # es) t =
     (case read_slot s of
        Inl e \<Rightarrow> Inl e
      | Inr v \<Rightarrow>
          (case OrdinarySet h target t k v of
             Inl e \<Rightarrow> Inl e
           | Inr t' \<Rightarrow> assign_entries h target es t'))"

definition Object_assign :: "heap \<Rightarrow> addr \<Rightarrow> jsval \<Rightarrow> (js_exn + unit) \<times> heap" where
  "Object_assign h target source =
     (case assign_entries h target (source_entries h source) (props (obj_at h target)) of
        Inl e \<Rightarrow> (Inl e, h)
      | Inr ps \<Rightarrow> (Inr (), h[target := (obj_at h target)\<lparr>props := ps\<rparr>]))"

text \<open>The assignment \<^verbatim>\<open>o[k] = v\<close> to an object in the store.\<close>

definition assign_property :: "heap \<Rightarrow> addr \<Rightarrow> string \<Rightarrow> jsval \<Rightarrow> (js_exn + unit) \<times> heap" where
  "assign_property h a k v =
     (case OrdinarySet h a (props (obj_at h a)) k v of
        Inl e \<Rightarrow> (Inl e, h)
      | Inr ps \<Rightarrow> (Inr (), h[a := (obj_at h a)\<lparr>props := ps\<rparr>]))"

section \<open>The logger (src/lib/logger.ts)\<close>

text \<open>
  The two interfaces of src/lib/types.ts that a logger is configured with. Their methods
  are injected code: a formatter may allocate objects and may throw.
\<close>

record LogFormatter =
  fmt_formatLogData :: "heap \<Rightarrow> jsval \<Rightarrow> (js_exn + string option) \<times> heap"
  fmt_formatError :: "heap \<Rightarrow> string \<Rightarrow> jsval \<Rightarrow> (js_exn + jsval) \<times> heap"

text \<open>
  What a call can act on: the object store, the lines printed with \<^verbatim>\<open>console.log\<close>, and
  the texts handed to an injected transport that keeps them.
\<close>

record world =
  w_heap :: heap
  w_stdout :: "string list"
  w_sink :: "string list"

record LogTransport =
  writeLog :: "string \<Rightarrow> world \<Rightarrow> world"

text \<open>\<^verbatim>\<open>console.log(x)\<close> prints the value it is given; undefined prints as that word.\<close>

definition console_log :: "string option \<Rightarrow> world \<Rightarrow> world" where
  "console_log x w =
     w\<lparr>w_stdout := w_stdout w @ [case x of Some s \<Rightarrow> s | None \<Rightarrow> ''undefined'']\<rparr>"

text \<open>src/lib/console-transport.ts\<close>

definition ConsoleTransport :: LogTransport where
  "ConsoleTransport = \<lparr>writeLog = (\<lambda>log. console_log (Some log))\<rparr>"

text \<open>LoggerConfig and ResolvedLogConfig; an absent scope is the value undefined.\<close>

record Logger =
  cfg_scope :: jsval
  cfg_logLevel :: level_value
  cfg_formatter :: LogFormatter
  cfg_transport :: LogTransport
  cfg_getLogContext :: "(heap \<Rightarrow> jsval) option"

definition new_Logger :: "Logger \<Rightarrow> Logger" where
  "new_Logger config = config\<lparr>cfg_logLevel := resolve_logLevel (cfg_logLevel config)\<rparr>"


text \<open>
  Logger.getLogData, lines 88 to 123, in the order of its statements. Lines 101 to 106:
  the record with level and message, and the context if the accessor returns one.
\<close>

definition new_logData :: "Logger \<Rightarrow> LogLevel \<Rightarrow> string \<Rightarrow> heap \<Rightarrow> addr \<times> heap" where
  "new_logData this level message h =
     (let (logData, h1) =
            alloc h \<lparr>cls = OrdinaryObject,
                     props = [(''level'', OwnEnumerable, Data (VNum (int (level_num level)))),
                              (''message'', OwnEnumerable, Data (VStr message))]\<rparr>;
          logContext = (case cfg_getLogContext this of None \<Rightarrow> VUndefined | Some f \<Rightarrow> f h1)
      in (logData, if truthy logContext then heap_set h1 logData ''context'' logContext else h1))"

text \<open>
  Lines 113 to 117, the second argument of \<^verbatim>\<open>Object.assign\<close>: the converted error, the
  data itself if it is an object, or a new object that wraps it under the key \<^verbatim>\<open>data\<close>.
\<close>

definition data_source :: "LogFormatter \<Rightarrow> heap \<Rightarrow> jsval \<Rightarrow> (js_exn + jsval) \<times> heap" where
  "data_source fmt h data =
     (if instanceof_Error h data then fmt_formatError fmt h [] data
      else if isObject h data then (Inr data, h)
      else (let (wrapped, h1) =
                  alloc h \<lparr>cls = OrdinaryObject, props = [(''data'', OwnEnumerable, Data data)]\<rparr>
            in (Inr (VRef wrapped), h1)))"

text \<open>
  Lines 109 to 117: the new object \<^verbatim>\<open>dataToAdd\<close> is the spread of the scope, and
  \<^verbatim>\<open>Object.assign\<close> then writes the source to it.
\<close>

definition build_data :: "LogFormatter \<Rightarrow> jsval \<Rightarrow> jsval \<Rightarrow> heap \<Rightarrow> (js_exn + addr) \<times> heap" where
  "build_data fmt sc data h =
     (let (dataToAdd, h1) = alloc h empty_object in
      case CopyDataProperties h1 dataToAdd sc of
        (Inl e, h2) \<Rightarrow> (Inl e, h2)
      | (Inr u, h2) \<Rightarrow>
          (case data_source fmt h2 data of
             (Inl e, h3) \<Rightarrow> (Inl e, h3)
           | (Inr source, h3) \<Rightarrow>
               (case Object_assign h3 dataToAdd source of
                  (Inl e, h4) \<Rightarrow> (Inl e, h4)
                | (Inr u', h4) \<Rightarrow> (Inr dataToAdd, h4))))"

definition getLogData ::
  "Logger \<Rightarrow> LogLevel \<Rightarrow> string \<Rightarrow> jsval \<Rightarrow> jsval \<Rightarrow> LogFormatter \<Rightarrow> heap
     \<Rightarrow> (js_exn + addr) \<times> heap" where
  "getLogData this level message data sc fmt h =
     (let (logData, h1) = new_logData this level message h in
      if truthy data \<or> truthy sc then
        (case build_data fmt sc data h1 of
           (Inl e, h2) \<Rightarrow> (Inl e, h2)
         | (Inr dataToAdd, h2) \<Rightarrow> (Inr logData, heap_set h2 logData ''data'' (VRef dataToAdd)))
      else (Inr logData, h1))"

text \<open>
  Logger.log, lines 68 to 86: the threshold test, the record, and
  \<^verbatim>\<open>console.log(this.config.formatter.formatLogData(logData))\<close>.
\<close>

definition log :: "Logger \<Rightarrow> LogLevel \<Rightarrow> string \<Rightarrow> jsval \<Rightarrow> world \<Rightarrow> (js_exn + unit) \<times> world" where
  "log this verbosity message data w =
     (if below_threshold verbosity (cfg_logLevel this) then (Inr (), w)
      else
        (case getLogData this verbosity message data (cfg_scope this) (cfg_formatter this) (w_heap w) of
           (Inl e, h1) \<Rightarrow> (Inl e, w\<lparr>w_heap := h1\<rparr>)
         | (Inr logData, h1) \<Rightarrow>
             (case fmt_formatLogData (cfg_formatter this) h1 (VRef logData) of
                (Inl e, h2) \<Rightarrow> (Inl e, w\<lparr>w_heap := h2\<rparr>)
              | (Inr text, h2) \<Rightarrow> (Inr (), console_log text (w\<lparr>w_heap := h2\<rparr>)))))"

text \<open>The per-severity methods, lines 44 to 66.\<close>

definition log_debug :: "Logger \<Rightarrow> string \<Rightarrow> jsval \<Rightarrow> world \<Rightarrow> (js_exn + unit) \<times> world" where
  "log_debug this = log this debug"

definition log_info :: "Logger \<Rightarrow> string \<Rightarrow> jsval \<Rightarrow> world \<Rightarrow> (js_exn + unit) \<times> world" where
  "log_info this = log this info"

definition log_warn :: "Logger \<Rightarrow> string \<Rightarrow> jsval \<Rightarrow> world \<Rightarrow> (js_exn + unit) \<times> world" where
  "log_warn this = log this warn"

definition log_error :: "Logger \<Rightarrow> string \<Rightarrow> jsval \<Rightarrow> world \<Rightarrow> (js_exn + unit) \<times> world" where
  "log_error this = log this error"

definition log_fatal :: "Logger \<Rightarrow> string \<Rightarrow> jsval \<Rightarrow> world \<Rightarrow> (js_exn + unit) \<times> world" where
  "log_fatal this = log this fatal"

definition log_silent :: "Logger \<Rightarrow> world \<Rightarrow> (js_exn + unit) \<times> world" where
  "log_silent this w = (Inr (), w)"


section \<open>The context store (src/lib/async-context.ts)\<close>

text \<open>
  A log context maps names to strings. The module keeps one variable, \<^verbatim>\<open>storage\<close>, that
  is undefined until the first \<^verbatim>\<open>runWithContext\<close>; the storage object holds the store
  of the current execution, if any.
\<close>

type_synonym LogContext = "(string \<times> string) list"

record context_state =
  storage_created :: bool
  current_store :: "LogContext option"

definition initial_context_state :: context_state where
  "initial_context_state = \<lparr>storage_created = False, current_store = None\<rparr>"

definition getLogContextStorage :: "context_state \<Rightarrow> context_state" where
  "getLogContextStorage st =
     (if \<not> storage_created st then \<lparr>storage_created = True, current_store = None\<rparr> else st)"

definition getLogContext :: "context_state \<Rightarrow> LogContext option" where
  "getLogContext st = (if storage_created st then current_store st else None)"

fun context_put :: "LogContext \<Rightarrow> string \<Rightarrow> string \<Rightarrow> LogContext" where
  "context_put [] k v = [(k, v)]"
| "context_put ((k', v') # c) k v =
     (if k' = k then (k', v) # c else (k', v') # context_put c k v)"

text \<open>The spread \<^verbatim>\<open>{...base, ...additions}\<close> and \<^verbatim>\<open>Object.assign(base, additions)\<close>.\<close>

definition overlay :: "LogContext \<Rightarrow> LogContext \<Rightarrow> LogContext" where
  "overlay base additions = foldl (\<lambda>c (k, v). context_put c k v) base (key_order additions)"

text \<open>
  \<^verbatim>\<open>AsyncLocalStorage.run(store, fn)\<close>, for a synchronous \<^verbatim>\<open>fn\<close>: the store is the
  current one while \<^verbatim>\<open>fn\<close> runs, and the previous one is current again afterwards,
  whether \<^verbatim>\<open>fn\<close> returns or throws.
\<close>

definition storage_run ::
  "LogContext \<Rightarrow> (context_state \<Rightarrow> 'a \<times> context_state) \<Rightarrow> context_state \<Rightarrow> 'a \<times> context_state" where
  "storage_run store fn st =
     (let (r, st') = fn (st\<lparr>current_store := Some store\<rparr>)
      in (r, st'\<lparr>current_store := current_store st\<rparr>))"

definition runWithContext ::
  "LogContext \<Rightarrow> (context_state \<Rightarrow> 'a \<times> context_state) \<Rightarrow> context_state \<Rightarrow> 'a \<times> context_state" where
  "runWithContext logContext handlerFn st =
     (let parentContext = getLogContext st;
          st1 = getLogContextStorage st;
          mergedContext = overlay (case parentContext of None \<Rightarrow> [] | Some p \<Rightarrow> p) logContext
      in storage_run mergedContext handlerFn st1)"

definition mutateContextScope :: "LogContext \<Rightarrow> context_state \<Rightarrow> context_state" where
  "mutateContextScope additionalScope st =
     (case getLogContext st of
        None \<Rightarrow> st
      | Some currentContext \<Rightarrow> st\<lparr>current_store := Some (overlay currentContext additionalScope)\<rparr>)"

text \<open>
  The handlers a caller can write with this module: they read the context, extend it,
  open a nested block, run one after the other, or throw.
\<close>

datatype handler =
    ReadContext
  | Mutate LogContext
  | Nested LogContext handler
  | Sequence handler handler
  | Fail

primrec run_handler :: "handler \<Rightarrow> context_state \<Rightarrow> (js_exn + LogContext option) \<times> context_state" where
  "run_handler ReadContext = (\<lambda>st. (Inr (getLogContext st), st))"
| "run_handler (Mutate additions) = (\<lambda>st. (Inr None, mutateContextScope additions st))"
| "run_handler (Nested logContext body) = runWithContext logContext (run_handler body)"
| "run_handler (Sequence first second) =
     (\<lambda>st. case run_handler first st of
              (Inl e, st') \<Rightarrow> (Inl e, st')
            | (Inr r, st') \<Rightarrow> run_handler second st')"
| "run_handler Fail = (\<lambda>st. (Inl UserError, st))"


section \<open>JSON.stringify\<close>

text \<open>
  The library function the formatter calls, after its definition in the language
  standard (SerializeJSONProperty, SerializeJSONObject, SerializeJSONArray and
  QuoteJSONString). The call stack of the run-time system is bounded: a computation that
  nests deeper than the bound throws a RangeError, which the first argument of the
  functions below counts down to.
\<close>

definition dquote :: char where
  "dquote = CHR 0x22"

definition backslash :: char where
  "backslash = CHR 0x5C"

definition newline :: char where
  "newline = CHR 0x0A"

definition hex_digit :: "nat \<Rightarrow> char" where
  "hex_digit d = ''0123456789abcdef'' ! (d mod 16)"

definition escape_char :: "char \<Rightarrow> string" where
  "escape_char c =
     (let n = (of_char c :: nat) in
      if n = 8 then [backslash, CHR ''b'']
      else if n = 9 then [backslash, CHR ''t'']
      else if n = 10 then [backslash, CHR ''n'']
      else if n = 12 then [backslash, CHR ''f'']
      else if n = 13 then [backslash, CHR ''r'']
      else if n = 34 then [backslash, dquote]
      else if n = 92 then [backslash, backslash]
      else if n < 32 then [backslash, CHR ''u'', CHR ''0'', CHR ''0'', hex_digit (n div 16), hex_digit n]
      else [c])"

definition QuoteJSONString :: "string \<Rightarrow> string" where
  "QuoteJSONString s = [dquote] @ concat (map escape_char s) @ [dquote]"

fun join :: "string \<Rightarrow> string list \<Rightarrow> string" where
  "join sep [] = []"
| "join sep [x] = x"
| "join sep (x # y # ys) = x @ sep @ join sep (y # ys)"

definition gap_of :: "nat option \<Rightarrow> string" where
  "gap_of space = (case space of None \<Rightarrow> [] | Some n \<Rightarrow> replicate (min 10 n) CHR '' '')"

text \<open>
  The text of an object or an array from the texts of its members: \<open>indent\<close> is the
  indentation of the members, one \<open>gap\<close> deeper than that of the brackets.
\<close>

definition json_wrap :: "string \<Rightarrow> string \<Rightarrow> string \<Rightarrow> string \<Rightarrow> string list \<Rightarrow> string" where
  "json_wrap opening closing gap indent partial =
     (if partial = [] then opening @ closing
      else if gap = [] then opening @ join '','' partial @ closing
      else opening @ [newline] @ indent @ join ('','' @ [newline] @ indent) partial
           @ [newline] @ take (length indent - length gap) indent @ closing)"

definition callable :: "heap \<Rightarrow> jsval \<Rightarrow> call_result option" where
  "callable h v =
     (case v of
        VRef f \<Rightarrow> (case cls (obj_at h f) of FunctionObject src r \<Rightarrow> Some r | _ \<Rightarrow> None)
      | _ \<Rightarrow> None)"

definition call :: "call_result \<Rightarrow> js_exn + jsval" where
  "call r = (case r of Returns v \<Rightarrow> Inr v | Throws \<Rightarrow> Inl UserError)"

text \<open>Step 2 of SerializeJSONProperty: an object with a callable \<^verbatim>\<open>toJSON\<close> is replaced by its result.\<close>

definition apply_toJSON :: "heap \<Rightarrow> jsval \<Rightarrow> js_exn + jsval" where
  "apply_toJSON h v =
     (case v of
        VRef a \<Rightarrow>
          (case Get h a ''toJSON'' of
             Inl e \<Rightarrow> Inl e
           | Inr t \<Rightarrow> (case callable h t of Some r \<Rightarrow> call r | None \<Rightarrow> Inr v))
      | _ \<Rightarrow> Inr v)"

definition array_length :: "heap \<Rightarrow> addr \<Rightarrow> nat" where
  "array_length h a =
     (case map_of (props (obj_at h a)) ''length'' of
        Some (vis, Data (VNum n)) \<Rightarrow> nat n
      | _ \<Rightarrow> 0)"

type_synonym replacer = "heap \<Rightarrow> string \<Rightarrow> jsval \<Rightarrow> (js_exn + jsval) \<times> heap"

type_synonym property_serializer = "heap \<Rightarrow> string \<Rightarrow> jsval \<Rightarrow> (js_exn + string option) \<times> heap"

text \<open>The members of an object: a member whose value serializes to undefined is left out.\<close>

fun serialize_members ::
  "property_serializer \<Rightarrow> string \<Rightarrow> heap \<Rightarrow> (string \<times> slot) list \<Rightarrow> (js_exn + string list) \<times> heap" where
  "serialize_members f gap h [] = (Inr [], h)"
| "serialize_members f gap h ((k, s) # es) =
     (case read_slot s of
        Inl e \<Rightarrow> (Inl e, h)
      | Inr v \<Rightarrow>
          (case f h k v of
             (Inl e, h1) \<Rightarrow> (Inl e, h1)
           | (Inr strP, h1) \<Rightarrow>
               (case serialize_members f gap h1 es of
                  (Inl e, h2) \<Rightarrow> (Inl e, h2)
                | (Inr ms, h2) \<Rightarrow>
                    (Inr ((case strP of
                             None \<Rightarrow> []
                           | Some str \<Rightarrow>
                               [QuoteJSONString k @ '':'' @ (if gap = [] then [] else '' '') @ str])
                          @ ms), h2))))"

text \<open>The elements of an array: an element that serializes to undefined is written null.\<close>

fun serialize_elements ::
  "property_serializer \<Rightarrow> heap \<Rightarrow> addr \<Rightarrow> nat list \<Rightarrow> (js_exn + string list) \<times> heap" where
  "serialize_elements f h a [] = (Inr [], h)"
| "serialize_elements f h a (i # is) =
     (case Get h a (show_nat i) of
        Inl e \<Rightarrow> (Inl e, h)
      | Inr v \<Rightarrow>
          (case f h (show_nat i) v of
             (Inl e, h1) \<Rightarrow> (Inl e, h1)
           | (Inr strP, h1) \<Rightarrow>
               (case serialize_elements f h1 a is of
                  (Inl e, h2) \<Rightarrow> (Inl e, h2)
                | (Inr ms, h2) \<Rightarrow>
                    (Inr ((case strP of None \<Rightarrow> ''null'' | Some str \<Rightarrow> str) # ms), h2))))"

text \<open>
  SerializeJSONProperty, from the value of the property on: \<open>stack\<close> holds the objects
  being serialized (one that contains itself throws a TypeError), \<open>indent\<close> the current
  indentation.
\<close>

primrec SerializeJSONProperty ::
  "nat \<Rightarrow> replacer \<Rightarrow> string \<Rightarrow> addr list \<Rightarrow> string \<Rightarrow> property_serializer" where
  "SerializeJSONProperty 0 = (\<lambda>rep gap stack indent h key v. (Inl RangeError, h))"
| "SerializeJSONProperty (Suc n) =
     (\<lambda>rep gap stack indent h key v.
        case apply_toJSON h v of
          Inl e \<Rightarrow> (Inl e, h)
        | Inr v1 \<Rightarrow>
            (case rep h key v1 of
               (Inl e, h1) \<Rightarrow> (Inl e, h1)
             | (Inr v2, h1) \<Rightarrow>
                 (case v2 of
                    VNull \<Rightarrow> (Inr (Some ''null''), h1)
                  | VBool b \<Rightarrow> (Inr (Some (if b then ''true'' else ''false'')), h1)
                  | VStr s \<Rightarrow> (Inr (Some (QuoteJSONString s)), h1)
                  | VNum i \<Rightarrow> (Inr (Some (show_int i)), h1)
                  | VBigInt i \<Rightarrow> (Inl TypeError, h1)
                  | VUndefined \<Rightarrow> (Inr None, h1)
                  | VSymbol d \<Rightarrow> (Inr None, h1)
                  | VRef a \<Rightarrow>
                      if is_function h1 a then (Inr None, h1)
                      else if a \<in> set stack then (Inl TypeError, h1)
                      else if isArray h1 (VRef a) then
                        (case serialize_elements
                                (SerializeJSONProperty n rep gap (a # stack) (indent @ gap))
                                h1 a [0 ..< array_length h1 a] of
                           (Inl e, h2) \<Rightarrow> (Inl e, h2)
                         | (Inr ms, h2) \<Rightarrow>
                             (Inr (Some (json_wrap ''['' '']'' gap (indent @ gap) ms)), h2))
                      else
                        (case serialize_members
                                (SerializeJSONProperty n rep gap (a # stack) (indent @ gap))
                                gap h1 (own_enumerable (props (obj_at h1 a))) of
                           (Inl e, h2) \<Rightarrow> (Inl e, h2)
                         | (Inr ms, h2) \<Rightarrow>
                             (Inr (Some (json_wrap ''{'' ''}'' gap (indent @ gap) ms)), h2)))))"

text \<open>\<^verbatim>\<open>JSON.stringify(value, replacer, space)\<close>: the result is a string or undefined.\<close>

definition JSON_stringify ::
  "nat \<Rightarrow> replacer \<Rightarrow> nat option \<Rightarrow> heap \<Rightarrow> jsval \<Rightarrow> (js_exn + string option) \<times> heap" where
  "JSON_stringify n rep space h v = SerializeJSONProperty n rep (gap_of space) [] [] h [] v"

section \<open>The JSON formatter (src/lib/formatters/json-formatter.ts)\<close>

text \<open>
  \<^verbatim>\<open>util.inspect\<close> is a library function of the platform; the formatter hands it the
  value and its options and returns what it returns. It is a parameter here.
\<close>

datatype depth_option = DepthDefault | DepthNull

record InspectOptions =
  opt_depth :: depth_option
  opt_compact :: bool

type_synonym inspector = "InspectOptions \<Rightarrow> heap \<Rightarrow> jsval \<Rightarrow> string"

record JsonLogFormatterOptions =
  compact_option :: "bool option"

record JsonLogFormatter =
  compact :: bool
  jsonStringifySpace :: "nat option"
  inspectOptions :: InspectOptions

text \<open>JsonLogFormatter.constructor, lines 23 to 44.\<close>

definition new_JsonLogFormatter :: "JsonLogFormatterOptions \<Rightarrow> JsonLogFormatter" where
  "new_JsonLogFormatter options =
     (let c = (case compact_option options of None \<Rightarrow> False | Some b \<Rightarrow> b) in
      \<lparr>compact = c,
       jsonStringifySpace = (if c then None else Some 2),
       inspectOptions = (if c then \<lparr>opt_depth = DepthDefault, opt_compact = True\<rparr>
                         else \<lparr>opt_depth = DepthNull, opt_compact = False\<rparr>)\<rparr>)"

definition formatWithInspect :: "inspector \<Rightarrow> JsonLogFormatter \<Rightarrow> heap \<Rightarrow> jsval \<Rightarrow> string" where
  "formatWithInspect insp this h arg = insp (inspectOptions this) h arg"

definition formatPromise :: "string \<Rightarrow> string" where
  "formatPromise key = ''Promise { you tried to log a promise at '' @ key @ ''. try awaiting it pls }''"

definition instanceof_RegExp :: "heap \<Rightarrow> jsval \<Rightarrow> bool" where
  "instanceof_RegExp h v =
     (case v of
        VRef a \<Rightarrow> (case cls (obj_at h a) of RegExpObject src flags \<Rightarrow> True | _ \<Rightarrow> False)
      | _ \<Rightarrow> False)"

definition instanceof_Promise :: "heap \<Rightarrow> jsval \<Rightarrow> bool" where
  "instanceof_Promise h v = (case v of VRef a \<Rightarrow> cls (obj_at h a) = PromiseObject | _ \<Rightarrow> False)"

definition regexp_text :: "heap \<Rightarrow> jsval \<Rightarrow> string" where
  "regexp_text h v =
     (case v of
        VRef a \<Rightarrow>
          (case cls (obj_at h a) of
             RegExpObject src flags \<Rightarrow> ''Regexp { /'' @ src @ ''/'' @ flags @ '' }''
           | _ \<Rightarrow> [])
      | _ \<Rightarrow> [])"

text \<open>
  JsonLogFormatter.jsonReplacer, lines 79 to 98. The formatter whose \<^verbatim>\<open>formatError\<close> it
  calls is \<^verbatim>\<open>this\<close>, one call deeper on the stack.
\<close>

definition jsonReplacer :: "LogFormatter \<Rightarrow> replacer" where
  "jsonReplacer self h key v =
     (if typeof h v = TBigint then
        (case v of VBigInt n \<Rightarrow> (Inr (VStr (show_int n)), h) | _ \<Rightarrow> (Inr v, h))
      else if instanceof_RegExp h v then (Inr (VStr (regexp_text h v)), h)
      else if instanceof_Promise h v then (Inr (VStr (formatPromise key)), h)
      else if typeof h v = TUndefined then (Inr (VStr ''FakeValue { undefined }''), h)
      else if instanceof_Error h v then fmt_formatError self h key v
      else (Inr v, h))"

text \<open>
  The template literal \<^verbatim>\<open>`${arg}`\<close> for a value that is not an object: a symbol cannot
  be converted to a string, a function converts to its source text.
\<close>

definition template_literal :: "heap \<Rightarrow> jsval \<Rightarrow> js_exn + string" where
  "template_literal h arg =
     (case arg of
        VUndefined \<Rightarrow> Inr ''undefined''
      | VNull \<Rightarrow> Inr ''null''
      | VBool b \<Rightarrow> Inr (if b then ''true'' else ''false'')
      | VNum i \<Rightarrow> Inr (show_int i)
      | VStr s \<Rightarrow> Inr s
      | VBigInt i \<Rightarrow> Inr (show_int i)
      | VSymbol d \<Rightarrow> Inl TypeError
      | VRef a \<Rightarrow>
          (case cls (obj_at h a) of
             FunctionObject src r \<Rightarrow> Inr src
           | _ \<Rightarrow> Inr ''[object Object]''))"

text \<open>JsonLogFormatter.formatLogData, lines 55 to 69.\<close>

definition formatLogData ::
  "inspector \<Rightarrow> JsonLogFormatter \<Rightarrow> nat \<Rightarrow> LogFormatter \<Rightarrow> heap \<Rightarrow> jsval
     \<Rightarrow> (js_exn + string option) \<times> heap" where
  "formatLogData insp this n self h arg =
     (if typeof h arg \<noteq> TObject then
        (case template_literal h arg of
           Inl e \<Rightarrow> (Inl e, h)
         | Inr s \<Rightarrow> (Inr (Some s), h))
      else
        (case JSON_stringify n (jsonReplacer self) (jsonStringifySpace this) h arg of
           (Inl e, h1) \<Rightarrow> (Inr (Some (formatWithInspect insp this h1 arg)), h1)
         | (Inr r, h1) \<Rightarrow> (Inr r, h1)))"

text \<open>The value stored for a text that a formatter returned.\<close>

definition text_value :: "string option \<Rightarrow> jsval" where
  "text_value t = (case t of None \<Rightarrow> VUndefined | Some s \<Rightarrow> VStr s)"

text \<open>
  errorToObject, lines 152 to 185. The loop over the keys of the error:
\<close>

fun copy_error_keys ::
  "LogFormatter \<Rightarrow> addr \<Rightarrow> addr \<Rightarrow> heap \<Rightarrow> string list \<Rightarrow> (js_exn + unit) \<times> heap" where
  "copy_error_keys formatter err errObject h [] = (Inr (), h)"
| "copy_error_keys formatter err errObject h (key # keys) =
     (if has_property h errObject key then copy_error_keys formatter err errObject h keys
      else
        (case Get h err key of
           Inl e \<Rightarrow> (Inl e, h)
         | Inr v \<Rightarrow>
             (case fmt_formatLogData formatter h v of
                (Inl e, h1) \<Rightarrow> (Inl e, h1)
              | (Inr t, h1) \<Rightarrow>
                  copy_error_keys formatter err errObject
                    (heap_set h1 errObject key (text_value t)) keys)))"

text \<open>The branch on \<^verbatim>\<open>toJSON\<close>, lines 162 to 174.\<close>

definition merge_error_properties ::
  "LogFormatter \<Rightarrow> addr \<Rightarrow> addr \<Rightarrow> heap \<Rightarrow> (js_exn + unit) \<times> heap" where
  "merge_error_properties formatter err errObject h =
     (case (if has_property h err ''toJSON'' then Get h err ''toJSON'' else Inr VUndefined) of
        Inl e \<Rightarrow> (Inl e, h)
      | Inr t \<Rightarrow>
          (case callable h t of
             Some r \<Rightarrow>
               (case call r of
                  Inl e \<Rightarrow> (Inl e, h)
                | Inr json \<Rightarrow> Object_assign h errObject json)
           | None \<Rightarrow>
               copy_error_keys formatter err errObject h (for_in_keys (props (obj_at h err)))))"

fun errorToObject :: "nat \<Rightarrow> LogFormatter \<Rightarrow> heap \<Rightarrow> addr \<Rightarrow> (js_exn + jsval) \<times> heap" where
  "errorToObject 0 formatter h err = (Inl RangeError, h)"
| "errorToObject (Suc n) formatter h err =
     (case Get h err ''name'' of
        Inl e \<Rightarrow> (Inl e, h)
      | Inr name \<Rightarrow>
     (case Get h err ''message'' of
        Inl e \<Rightarrow> (Inl e, h)
      | Inr message \<Rightarrow>
     (case Get h err ''stack'' of
        Inl e \<Rightarrow> (Inl e, h)
      | Inr stack \<Rightarrow>
     (let (errObject, h1) =
            alloc h \<lparr>cls = OrdinaryObject,
                     props = [(''name'', OwnEnumerable, Data name),
                              (''message'', OwnEnumerable, Data message),
                              (''stack'', OwnEnumerable, Data stack)]\<rparr>
      in
      case merge_error_properties formatter err errObject h1 of
        (Inl e, h2) \<Rightarrow> (Inl e, h2)
      | (Inr u, h2) \<Rightarrow>
          (case Get h2 err ''cause'' of
             Inl e \<Rightarrow> (Inl e, h2)
           | Inr cause \<Rightarrow>
               if truthy cause then
                 (case (case cause of
                          VRef c \<Rightarrow>
                            if instanceof_Error h2 cause then errorToObject n formatter h2 c
                            else (case fmt_formatLogData formatter h2 cause of
                                    (r, h3) \<Rightarrow> (map_sum id text_value r, h3))
                        | _ \<Rightarrow>
                            (case fmt_formatLogData formatter h2 cause of
                               (r, h3) \<Rightarrow> (map_sum id text_value r, h3))) of
                    (Inl e, h3) \<Rightarrow> (Inl e, h3)
                  | (Inr c, h3) \<Rightarrow>
                      (case assign_property h3 errObject ''cause'' c of
                         (Inl e, h4) \<Rightarrow> (Inl e, h4)
                       | (Inr u', h4) \<Rightarrow> (Inr (VRef errObject), h4)))
               else (Inr (VRef errObject), h2))))))"

text \<open>JsonLogFormatter.formatError, lines 124 to 126.\<close>

definition formatError :: "nat \<Rightarrow> LogFormatter \<Rightarrow> heap \<Rightarrow> string \<Rightarrow> jsval \<Rightarrow> (js_exn + jsval) \<times> heap" where
  "formatError n self h key err =
     (case err of
        VRef a \<Rightarrow> errorToObject n self h a
      | _ \<Rightarrow> (Inl TypeError, h))"

text \<open>
  The two public methods of a JsonLogFormatter as a LogFormatter, with a stack bound:
  every call of a method takes one level, and the formatter that the method hands on as
  \<^verbatim>\<open>this\<close> has one level less.
\<close>

primrec JsonLogFormatter_methods :: "inspector \<Rightarrow> JsonLogFormatter \<Rightarrow> nat \<Rightarrow> LogFormatter" where
  "JsonLogFormatter_methods insp this 0 =
     \<lparr>fmt_formatLogData = (\<lambda>h arg. (Inl RangeError, h)),
      fmt_formatError = (\<lambda>h key err. (Inl RangeError, h))\<rparr>"
| "JsonLogFormatter_methods insp this (Suc n) =
     \<lparr>fmt_formatLogData = formatLogData insp this n (JsonLogFormatter_methods insp this n),
      fmt_formatError = formatError n (JsonLogFormatter_methods insp this n)\<rparr>"


section \<open>Sample inputs\<close>

text \<open>Concrete loggers, stores and transports for the closed statements below.\<close>

definition sample_inspector :: inspector where
  "sample_inspector opts h v = ''[inspect]''"

definition recording_transport :: LogTransport where
  "recording_transport = \<lparr>writeLog = (\<lambda>log w. w\<lparr>w_sink := w_sink w @ [log]\<rparr>)\<rparr>"

definition sample_formatter :: "bool \<Rightarrow> LogFormatter" where
  "sample_formatter c =
     JsonLogFormatter_methods sample_inspector (new_JsonLogFormatter \<lparr>compact_option = Some c\<rparr>) 4"

definition sample_logger :: "level_value \<Rightarrow> Logger" where
  "sample_logger lv =
     new_Logger \<lparr>cfg_scope = VUndefined, cfg_logLevel = lv,
                 cfg_formatter = sample_formatter True,
                 cfg_transport = recording_transport,
                 cfg_getLogContext = None\<rparr>"

definition empty_world :: "heap \<Rightarrow> world" where
  "empty_world h = \<lparr>w_heap = h, w_stdout = [], w_sink = []\<rparr>"

definition data_property :: "string \<Rightarrow> jsval \<Rightarrow> property" where
  "data_property k v = (k, OwnEnumerable, Data v)"

text \<open>The object \<^verbatim>\<open>{ normal: "value", get problematic() { throw ... } }\<close>.\<close>

definition data_with_throwing_getter :: heap where
  "data_with_throwing_getter =
     [\<lparr>cls = OrdinaryObject,
       props = [data_property ''normal'' (VStr ''value''),
                (''problematic'', OwnEnumerable, Getter Throws)]\<rparr>]"

text \<open>The context that a block sees on entry, and the state in which its handler starts.\<close>

definition merged_context :: "context_state \<Rightarrow> LogContext \<Rightarrow> LogContext" where
  "merged_context st logContext =
     overlay (case getLogContext st of None \<Rightarrow> [] | Some p \<Rightarrow> p) logContext"

definition entry_state :: "LogContext \<Rightarrow> context_state \<Rightarrow> context_state" where
  "entry_state logContext st =
     (getLogContextStorage st)\<lparr>current_store := Some (merged_context st logContext)\<rparr>"

definition extends :: "heap \<Rightarrow> heap \<Rightarrow> bool" where
  "extends h h' = (length h \<le> length h' \<and> take (length h) h' = h)"

definition valid_value :: "heap \<Rightarrow> jsval \<Rightarrow> bool" where
  "valid_value h v = (case v of VRef a \<Rightarrow> a < length h | _ \<Rightarrow> True)"

definition allocates_only :: "LogFormatter \<Rightarrow> bool" where
  "allocates_only fmt =
     ((\<forall>h v. extends h (snd (fmt_formatLogData fmt h v)))
      \<and> (\<forall>h k v. extends h (snd (fmt_formatError fmt h k v))))"

definition only_allocates :: "(heap \<Rightarrow> 'k \<Rightarrow> 'v \<Rightarrow> 'r \<times> heap) \<Rightarrow> bool" where
  "only_allocates f = (\<forall>h k v. extends h (snd (f h k v)))"


definition slot_value :: "slot \<Rightarrow> jsval option" where
  "slot_value s = (case read_slot s of Inr v \<Rightarrow> Some v | Inl e \<Rightarrow> None)"

definition entry_values :: "(string \<times> slot) list \<Rightarrow> string \<rightharpoonup> jsval" where
  "entry_values es k = Option.bind (map_of es k) slot_value"

definition object_values :: "property list \<Rightarrow> string \<rightharpoonup> jsval" where
  "object_values ps = entry_values (map (\<lambda>(k, vis, s). (k, s)) ps)"



text \<open>The properties of the object under the key \<^verbatim>\<open>data\<close> of a record, if there is one.\<close>

definition data_field :: "heap \<Rightarrow> addr \<Rightarrow> property list option" where
  "data_field h logData =
     (case Get h logData ''data'' of
        Inr (VRef dataToAdd) \<Rightarrow> Some (props (obj_at h dataToAdd))
      | _ \<Rightarrow> None)"

definition plain_error :: "string \<Rightarrow> string \<Rightarrow> string \<Rightarrow> jsobj" where
  "plain_error name message stack =
     \<lparr>cls = ErrorObject,
      props = [(''stack'', NonEnumerable, Data (VStr stack)),
               (''message'', NonEnumerable, Data (VStr message)),
               (''name'', NonEnumerable, Data (VStr name))]\<rparr>"

text \<open>The scope \<^verbatim>\<open>{a: 1}\<close> and the error \<^verbatim>\<open>new Error("boom")\<close>.\<close>

definition error_example_heap :: heap where
  "error_example_heap =
     [\<lparr>cls = OrdinaryObject, props = [data_property ''a'' (VNum 1)]\<rparr>,
      plain_error ''Error'' ''boom'' ''Error: boom'']"

text \<open>The object \<^verbatim>\<open>{defined: "value", notDefined: undefined}\<close>.\<close>

definition undefined_example_heap :: heap where
  "undefined_example_heap =
     [\<lparr>cls = OrdinaryObject,
       props = [data_property ''defined'' (VStr ''value''),
                data_property ''notDefined'' VUndefined]\<rparr>]"

text \<open>An error with the enumerable property \<^verbatim>\<open>code\<close> set to undefined.\<close>

definition error_with_undefined_code :: heap where
  "error_with_undefined_code =
     [\<lparr>cls = ErrorObject,
       props = [(''stack'', NonEnumerable, Data (VStr ''Error: boom'')),
                (''message'', NonEnumerable, Data (VStr ''boom'')),
                (''name'', NonEnumerable, Data (VStr ''Error'')),
                data_property ''code'' VUndefined]\<rparr>]"

text \<open>The text of a member of an object.\<close>

definition member_text :: "string \<Rightarrow> string \<Rightarrow> string \<Rightarrow> string" where
  "member_text gap k t = QuoteJSONString k @ '':'' @ (if gap = [] then [] else '' '') @ t"

text \<open>A logger whose context accessor returns the object at address 0.\<close>

definition context_logger :: "bool \<Rightarrow> Logger" where
  "context_logger c =
     new_Logger \<lparr>cfg_scope = VUndefined, cfg_logLevel = LvUndefined,
                 cfg_formatter = sample_formatter c,
                 cfg_transport = ConsoleTransport,
                 cfg_getLogContext = Some (\<lambda>h. VRef 0)\<rparr>"

text \<open>The context \<^verbatim>\<open>{requestId: "X"}\<close> and the data \<^verbatim>\<open>{k: "v"}\<close>.\<close>

definition context_example_heap :: heap where
  "context_example_heap =
     [\<lparr>cls = OrdinaryObject, props = [data_property ''requestId'' (VStr ''X'')]\<rparr>,
      \<lparr>cls = OrdinaryObject, props = [data_property ''k'' (VStr ''v'')]\<rparr>]"

text \<open>
  The properties of a record with the given level and message, and with a context and
  a data object if there are any, in the order in which getLogData adds them.
\<close>

definition record_props :: "int \<Rightarrow> string \<Rightarrow> jsval option \<Rightarrow> jsval option \<Rightarrow> property list" where
  "record_props n m ctx dat =
     [(''level'', OwnEnumerable, Data (VNum n)), (''message'', OwnEnumerable, Data (VStr m))]
     @ (case ctx of None \<Rightarrow> [] | Some c \<Rightarrow> [(''context'', OwnEnumerable, Data c)])
     @ (case dat of None \<Rightarrow> [] | Some d \<Rightarrow> [(''data'', OwnEnumerable, Data d)])"

text \<open>
  The JSON text of a record from the texts of its context and its data: the members
  \<^verbatim>\<open>level\<close>, \<^verbatim>\<open>message\<close>, \<^verbatim>\<open>context\<close> and \<^verbatim>\<open>data\<close>, in this order.
\<close>

definition record_text :: "string \<Rightarrow> int \<Rightarrow> string \<Rightarrow> string option \<Rightarrow> string option \<Rightarrow> string" where
  "record_text gap n m tc td =
     json_wrap ''{'' ''}'' gap gap
       ([member_text gap ''level'' (show_int n), member_text gap ''message'' (QuoteJSONString m)]
        @ (case tc of None \<Rightarrow> [] | Some t \<Rightarrow> [member_text gap ''context'' t])
        @ (case td of None \<Rightarrow> [] | Some t \<Rightarrow> [member_text gap ''data'' t]))"

text \<open>The context that the accessor of a logger returns for a new record.\<close>

definition context_of :: "Logger \<Rightarrow> LogLevel \<Rightarrow> string \<Rightarrow> heap \<Rightarrow> jsval" where
  "context_of this level message h =
     (case cfg_getLogContext this of
        None \<Rightarrow> VUndefined
      | Some f \<Rightarrow>
          f (h @ [\<lparr>cls = OrdinaryObject,
                    props = [(''level'', OwnEnumerable, Data (VNum (int (level_num level)))),
                             (''message'', OwnEnumerable, Data (VStr message))]\<rparr>]))"

text \<open>The members that an optional property contributes.\<close>

definition optional_member :: "string \<Rightarrow> string \<Rightarrow> string option \<Rightarrow> string list" where
  "optional_member gap k t = (case t of None \<Rightarrow> [] | Some x \<Rightarrow> [member_text gap k x])"

text \<open>A property list that holds own enumerable data properties only.\<close>

definition plain_properties :: "property list \<Rightarrow> bool" where
  "plain_properties ps =
     list_all (\<lambda>(k, vis, s). vis = OwnEnumerable \<and> (case s of Data v \<Rightarrow> True | Getter g \<Rightarrow> False)) ps"


text \<open>
  The object \<^verbatim>\<open>{ inner: { normal: "value", get problematic() { throw ... } } }\<close>, at
  address 1.
\<close>

definition nested_throwing_getter :: heap where
  "nested_throwing_getter =
     data_with_throwing_getter
     @ [\<lparr>cls = OrdinaryObject, props = [data_property ''inner'' (VRef 0)]\<rparr>]"

text \<open>
  The data \<^verbatim>\<open>{ toJSON: () => Symbol("s"), k: "v" }\<close>, at address 1, with its method at
  address 0.
\<close>

definition symbol_toJSON_heap :: heap where
  "symbol_toJSON_heap =
     [\<lparr>cls = FunctionObject ''() => Symbol(\"s\")'' (Returns (VSymbol ''s'')), props = []\<rparr>,
      \<lparr>cls = OrdinaryObject,
        props = [data_property ''toJSON'' (VRef 0), data_property ''k'' (VStr ''v'')]\<rparr>]"

text \<open>
  Renaming the addresses of a store. A run that starts in a store with more objects
  creates its objects at later addresses: \<open>shift_addr k n\<close> moves the addresses from \<open>k\<close>
  on up by \<open>n\<close> places and leaves the earlier ones, and the other functions apply it to
  the references in a value, a property, an object.
\<close>

definition shift_addr :: "nat \<Rightarrow> nat \<Rightarrow> addr \<Rightarrow> addr" where
  "shift_addr k n a = (if a < k then a else a + n)"

definition shift_value :: "nat \<Rightarrow> nat \<Rightarrow> jsval \<Rightarrow> jsval" where
  "shift_value k n v = (case v of VRef a \<Rightarrow> VRef (shift_addr k n a) | _ \<Rightarrow> v)"

definition shift_call :: "nat \<Rightarrow> nat \<Rightarrow> call_result \<Rightarrow> call_result" where
  "shift_call k n r = (case r of Returns v \<Rightarrow> Returns (shift_value k n v) | Throws \<Rightarrow> Throws)"

definition shift_slot :: "nat \<Rightarrow> nat \<Rightarrow> slot \<Rightarrow> slot" where
  "shift_slot k n s =
     (case s of Data v \<Rightarrow> Data (shift_value k n v) | Getter r \<Rightarrow> Getter (shift_call k n r))"

definition shift_class :: "nat \<Rightarrow> nat \<Rightarrow> obj_class \<Rightarrow> obj_class" where
  "shift_class k n c =
     (case c of FunctionObject src r \<Rightarrow> FunctionObject src (shift_call k n r) | _ \<Rightarrow> c)"

definition shift_props :: "nat \<Rightarrow> nat \<Rightarrow> property list \<Rightarrow> property list" where
  "shift_props k n ps = map (\<lambda>(key, vis, s). (key, vis, shift_slot k n s)) ps"

definition shift_entries :: "nat \<Rightarrow> nat \<Rightarrow> (string \<times> slot) list \<Rightarrow> (string \<times> slot) list" where
  "shift_entries k n es = map (\<lambda>(key, s). (key, shift_slot k n s)) es"

definition shift_object :: "nat \<Rightarrow> nat \<Rightarrow> jsobj \<Rightarrow> jsobj" where
  "shift_object k n ob = \<lparr>cls = shift_class k n (cls ob), props = shift_props k n (props ob)\<rparr>"

text \<open>
  The store \<open>h\<close> with the objects \<open>j\<close> put in at address \<open>k\<close>: the objects of \<open>h\<close> from
  \<open>k\<close> on come after them, and every reference follows.
\<close>

definition relocate :: "nat \<Rightarrow> heap \<Rightarrow> heap \<Rightarrow> heap" where
  "relocate k j h =
     map (shift_object k (length j)) (take k h) @ j @ map (shift_object k (length j)) (drop k h)"

text \<open>
  \<^verbatim>\<open>util.inspect\<close> prints what a value is made of; a store has addresses only in this
  model, so the text does not depend on them.
\<close>

definition stable_inspector :: "inspector \<Rightarrow> bool" where
  "stable_inspector insp =
     (\<forall>opts k j h v. k \<le> length h \<longrightarrow>
        insp opts (relocate k j h) (shift_value k (length j) v) = insp opts h v)"

text \<open>
  A formatter whose methods do not depend on addresses: in a store with more objects
  they return the same texts and create the same objects, at the later addresses.
\<close>

definition relocatable :: "LogFormatter \<Rightarrow> bool" where
  "relocatable fmt =
     ((\<forall>k j h v. k \<le> length h \<longrightarrow>
         fmt_formatLogData fmt (relocate k j h) (shift_value k (length j) v)
           = map_prod id (relocate k j) (fmt_formatLogData fmt h v))
      \<and> (\<forall>k j h key v. k \<le> length h \<longrightarrow>
         fmt_formatError fmt (relocate k j h) key (shift_value k (length j) v)
           = map_prod (map_sum id (shift_value k (length j))) (relocate k j)
               (fmt_formatError fmt h key v)))"

text \<open>
  A context accessor that does not depend on the addresses from \<open>k\<close> on: the context
  it returns is an object that exists below \<open>k\<close>, or one that is found or made alike
  wherever the later objects are.
\<close>

definition stable_accessor :: "nat \<Rightarrow> Logger \<Rightarrow> bool" where
  "stable_accessor k this =
     (case cfg_getLogContext this of
        None \<Rightarrow> True
      | Some f \<Rightarrow> \<forall>j h. k \<le> length h \<longrightarrow> f (relocate k j h) = shift_value k (length j) (f h))"

text \<open>A store in which every reference is to an object of the store.\<close>

definition slot_valid :: "heap \<Rightarrow> slot \<Rightarrow> bool" where
  "slot_valid h s =
     (case s of
        Data v \<Rightarrow> valid_value h v
      | Getter (Returns v) \<Rightarrow> valid_value h v
      | Getter Throws \<Rightarrow> True)"

definition object_valid :: "heap \<Rightarrow> jsobj \<Rightarrow> bool" where
  "object_valid h ob =
     (list_all (\<lambda>(k, vis, s). slot_valid h s) (props ob)
      \<and> (case cls ob of FunctionObject src (Returns v) \<Rightarrow> valid_value h v | _ \<Rightarrow> True))"

definition closed_heap :: "heap \<Rightarrow> bool" where
  "closed_heap h = list_all (object_valid h) h"

text \<open>
  The scope \<^verbatim>\<open>{a: 1}\<close>, the error \<^verbatim>\<open>new Error("Root cause")\<close>, the error
  \<^verbatim>\<open>new Error("Top", { cause })\<close> whose cause it is, and the context
  \<^verbatim>\<open>{requestId: "X"}\<close>; a logger with that scope whose context accessor returns that
  context.
\<close>

definition cause_example_heap :: heap where
  "cause_example_heap =
     [\<lparr>cls = OrdinaryObject, props = [data_property ''a'' (VNum 1)]\<rparr>,
      plain_error ''Error'' ''Root cause'' ''Error: Root cause'',
      \<lparr>cls = ErrorObject,
        props = [(''stack'', NonEnumerable, Data (VStr ''Error: Top'')),
                 (''message'', NonEnumerable, Data (VStr ''Top'')),
                 (''name'', NonEnumerable, Data (VStr ''Error'')),
                 (''cause'', NonEnumerable, Data (VRef 1))]\<rparr>,
      \<lparr>cls = OrdinaryObject, props = [data_property ''requestId'' (VStr ''X'')]\<rparr>]"

definition cause_example_logger :: Logger where
  "cause_example_logger =
     new_Logger \<lparr>cfg_scope = VRef 0, cfg_logLevel = LvUndefined,
                 cfg_formatter = sample_formatter True,
                 cfg_transport = ConsoleTransport,
                 cfg_getLogContext = Some (\<lambda>h. VRef 3)\<rparr>"

section \<open>Properties\<close>

subsection \<open>Threshold resolution\<close>

lemma resolve_logLevel_enum: "resolve_logLevel (LvEnum l) = LvEnum l"
  by (simp add: resolve_logLevel_def level_truthy_def)

lemma resolve_logLevel_name: "resolve_logLevel (LvString (level_name l)) = LvEnum l"
  by (cases l) (simp_all, code_simp+)

lemma resolve_logLevel_absent: "resolve_logLevel LvUndefined = LvEnum debug"
  by (simp add: resolve_logLevel_def level_truthy_def)

lemma resolve_logLevel_unknown:
  "\<not> LogLevel_in s \<Longrightarrow> resolve_logLevel (LvString s) = LvEnum debug"
  by (simp add: resolve_logLevel_def level_truthy_def)

text \<open>
  C4. The constructor is meant to resolve every input to a member of the enumeration,
  \<^verbatim>\<open>debug\<close> for whatever is not a member name. At the strings that are keys of the enum
  object without being member names it does not: \<^verbatim>\<open>"100"\<close> resolves to the string
  \<^verbatim>\<open>"silent"\<close>, below which no call lies although a child logger built from it resolves
  to the level \<^verbatim>\<open>silent\<close>, and \<^verbatim>\<open>"toString"\<close> resolves to a method of
  \<^verbatim>\<open>Object.prototype\<close>.
\<close>

theorem resolve_logLevel_enum_object_keys:
  "resolve_logLevel (LvString ''100'') = LvString ''silent''
   \<and> map (\<lambda>v. below_threshold v (resolve_logLevel (LvString ''100'')))
         [debug, info, warn, error, fatal] = [False, False, False, False, False]
   \<and> resolve_logLevel (resolve_logLevel (LvString ''100'')) = LvEnum silent
   \<and> resolve_logLevel (LvString ''toString'') = LvObject ''toString''"
  by code_simp

subsection \<open>The context store\<close>

lemma set_key_order [simp]: "set (key_order es) = set es"
  by (auto simp: key_order_def)

lemma distinct_key_order:
  assumes "distinct (map fst es)"
  shows "distinct (map fst (key_order es))"
proof -
  have d1: "distinct (map fst (filter (\<lambda>e. is_array_index (fst e)) es))"
    using assms by (rule distinct_map_filter)
  have d2: "distinct (map fst (filter (\<lambda>e. \<not> is_array_index (fst e)) es))"
    using assms by (rule distinct_map_filter)
  have d3: "distinct (map fst (sort_key (\<lambda>e. the (decimal_value (fst e)))
                                 (filter (\<lambda>e. is_array_index (fst e)) es)))"
    using d1 by (simp add: distinct_map)
  show ?thesis
    unfolding key_order_def using d2 d3 by auto
qed

lemma map_of_key_order:
  assumes "distinct (map fst es)"
  shows "map_of (key_order es) = map_of es"
  using assms distinct_key_order[OF assms] by (simp add: map_of_inject_set)

lemma context_put_map_of: "map_of (context_put c k v) = (map_of c)(k \<mapsto> v)"
  by (induction c) auto

lemma foldl_context_put_map_of:
  "distinct (map fst es) \<Longrightarrow>
   map_of (foldl (\<lambda>c (k, v). context_put c k v) base es) = map_of base ++ map_of es"
proof (induction es arbitrary: base)
  case Nil
  then show ?case by simp
next
  case (Cons e es)
  obtain k v where e: "e = (k, v)" by (cases e)
  have nk: "k \<notin> dom (map_of es)"
    using Cons.prems e by (auto simp: dom_map_of_conv_image_fst)
  have "map_of (foldl (\<lambda>c (k, v). context_put c k v) base (e # es))
        = map_of (context_put base k v) ++ map_of es"
    using Cons.IH[of "context_put base k v"] Cons.prems e by simp
  also have "\<dots> = (map_of base ++ map_of es)(k \<mapsto> v)"
    using nk by (simp add: context_put_map_of map_add_upd_left)
  also have "\<dots> = map_of base ++ map_of (e # es)"
    by (simp add: e)
  finally show ?case .
qed

lemma overlay_map_of:
  "distinct (map fst additions) \<Longrightarrow>
   map_of (overlay base additions) = map_of base ++ map_of additions"
  by (simp add: overlay_def foldl_context_put_map_of distinct_key_order map_of_key_order)

lemma runWithContext_unfold:
  "runWithContext lc f st =
     (fst (f (entry_state lc st)),
      (snd (f (entry_state lc st)))\<lparr>current_store := current_store (getLogContextStorage st)\<rparr>)"
  by (simp add: runWithContext_def storage_run_def entry_state_def merged_context_def Let_def
           split: prod.splits)

lemma storage_created_entry: "storage_created (entry_state lc st)"
  by (simp add: entry_state_def getLogContextStorage_def)

lemma getLogContext_entry: "getLogContext (entry_state lc st) = Some (merged_context st lc)"
  by (simp add: entry_state_def getLogContext_def getLogContextStorage_def)

lemma storage_created_mono:
  "storage_created st \<Longrightarrow> storage_created (snd (run_handler b st))"
proof (induction b arbitrary: st)
  case (Nested lc b)
  have "storage_created (snd (run_handler b (entry_state lc st)))"
    by (rule Nested.IH) (rule storage_created_entry)
  then show ?case by (simp add: runWithContext_unfold)
next
  case (Sequence a b)
  show ?case
  proof (cases "run_handler a st")
    case (Pair r st')
    have c: "storage_created st'"
      using Sequence.IH(1)[OF Sequence.prems] Pair by simp
    show ?thesis
      using Pair c Sequence.IH(2)[OF c] by (cases r) simp_all
  qed
qed (auto simp: mutateContextScope_def getLogContext_def split: option.splits)

lemma runWithContext_reverts:
  "getLogContext (snd (runWithContext lc (run_handler body) st)) = getLogContext st"
proof -
  have "storage_created (snd (run_handler body (entry_state lc st)))"
    by (rule storage_created_mono) (rule storage_created_entry)
  then show ?thesis
    by (simp add: runWithContext_unfold getLogContext_def getLogContextStorage_def)
qed

lemma nested_blocks_example:
  "runWithContext [(''requestId'', ''X'')]
     (runWithContext [(''jobId'', ''Y'')] (run_handler ReadContext)) initial_context_state
   = (Inr (Some [(''requestId'', ''X''), (''jobId'', ''Y'')]),
      \<lparr>storage_created = True, current_store = None\<rparr>)"
  by code_simp

text \<open>
  C7. \<^verbatim>\<open>runWithContext\<close> runs the handler in a state whose context is the caller's
  context (or the empty one) overlaid with the given one, new keys winning; whatever
  the handler does with the module (read, extend, nest, throw), the caller's context is
  the current one again afterwards. Two nested blocks for \<^verbatim>\<open>requestId\<close> and
  \<^verbatim>\<open>jobId\<close> read both keys, and no context is left after them.
\<close>

theorem runWithContext_overlays_and_reverts:
  assumes "distinct (map fst logContext)"
  shows "runWithContext logContext handlerFn st =
           (fst (handlerFn (entry_state logContext st)),
            (snd (handlerFn (entry_state logContext st)))
               \<lparr>current_store := current_store (getLogContextStorage st)\<rparr>)
         \<and> getLogContext (entry_state logContext st) = Some (merged_context st logContext)
         \<and> map_of (merged_context st logContext) =
             map_of (case getLogContext st of None \<Rightarrow> [] | Some p \<Rightarrow> p) ++ map_of logContext
         \<and> getLogContext (snd (runWithContext logContext (run_handler body) st)) = getLogContext st
         \<and> fst (runWithContext [(''requestId'', ''X'')]
                  (runWithContext [(''jobId'', ''Y'')] (run_handler ReadContext))
                  initial_context_state)
             = Inr (Some [(''requestId'', ''X''), (''jobId'', ''Y'')])
         \<and> getLogContext (snd (runWithContext [(''requestId'', ''X'')]
                  (runWithContext [(''jobId'', ''Y'')] (run_handler ReadContext))
                  initial_context_state))
             = None"
proof -
  have 1: "runWithContext logContext handlerFn st =
           (fst (handlerFn (entry_state logContext st)),
            (snd (handlerFn (entry_state logContext st)))
               \<lparr>current_store := current_store (getLogContextStorage st)\<rparr>)"
    by (rule runWithContext_unfold)
  have 2: "getLogContext (entry_state logContext st) = Some (merged_context st logContext)"
    by (rule getLogContext_entry)
  have 3: "map_of (merged_context st logContext) =
             map_of (case getLogContext st of None \<Rightarrow> [] | Some p \<Rightarrow> p) ++ map_of logContext"
    unfolding merged_context_def using assms by (rule overlay_map_of)
  have 4: "getLogContext (snd (runWithContext logContext (run_handler body) st)) = getLogContext st"
    by (rule runWithContext_reverts)
  have 5: "fst (runWithContext [(''requestId'', ''X'')]
                  (runWithContext [(''jobId'', ''Y'')] (run_handler ReadContext))
                  initial_context_state)
             = Inr (Some [(''requestId'', ''X''), (''jobId'', ''Y'')])"
    unfolding nested_blocks_example by simp
  have 6: "getLogContext (snd (runWithContext [(''requestId'', ''X'')]
                  (runWithContext [(''jobId'', ''Y'')] (run_handler ReadContext))
                  initial_context_state))
             = None"
    unfolding nested_blocks_example by (simp add: getLogContext_def)
  from 1 2 3 4 5 6 show ?thesis by blast
qed

theorem runWithContext_overlays_and_reverts_witness:
  "distinct (map fst [(''jobId'', ''Y'')])
   \<and> getLogContext (entry_state [(''jobId'', ''Y'')]
         \<lparr>storage_created = True, current_store = Some [(''requestId'', ''X'')]\<rparr>)
       = Some [(''requestId'', ''X''), (''jobId'', ''Y'')]
   \<and> getLogContext (snd (runWithContext [(''jobId'', ''Y'')]
         (run_handler (Sequence (Mutate [(''userId'', ''U'')]) ReadContext))
         \<lparr>storage_created = True, current_store = Some [(''requestId'', ''X'')]\<rparr>))
       = Some [(''requestId'', ''X'')]"
proof -
  have d: "distinct (map fst [(''jobId'', ''Y'')])" by simp
  have m: "merged_context \<lparr>storage_created = True, current_store = Some [(''requestId'', ''X'')]\<rparr>
             [(''jobId'', ''Y'')] = [(''requestId'', ''X''), (''jobId'', ''Y'')]"
    by code_simp
  have g: "getLogContext \<lparr>storage_created = True, current_store = Some [(''requestId'', ''X'')]\<rparr>
             = Some [(''requestId'', ''X'')]"
    by code_simp
  note t = runWithContext_overlays_and_reverts
            [OF d, where st = "\<lparr>storage_created = True, current_store = Some [(''requestId'', ''X'')]\<rparr>"
               and handlerFn = "run_handler (Sequence (Mutate [(''userId'', ''U'')]) ReadContext)"
               and body = "Sequence (Mutate [(''userId'', ''U'')]) ReadContext"]
  from t have 1: "getLogContext (entry_state [(''jobId'', ''Y'')]
         \<lparr>storage_created = True, current_store = Some [(''requestId'', ''X'')]\<rparr>)
       = Some (merged_context \<lparr>storage_created = True, current_store = Some [(''requestId'', ''X'')]\<rparr>
                 [(''jobId'', ''Y'')])"
    by blast
  from t have 2: "getLogContext (snd (runWithContext [(''jobId'', ''Y'')]
         (run_handler (Sequence (Mutate [(''userId'', ''U'')]) ReadContext))
         \<lparr>storage_created = True, current_store = Some [(''requestId'', ''X'')]\<rparr>))
       = getLogContext \<lparr>storage_created = True, current_store = Some [(''requestId'', ''X'')]\<rparr>"
    by blast
  from d 1 2 show ?thesis
    unfolding m g by blast
qed

subsection \<open>The formatter's entry point\<close>

text \<open>
  C1. \<^verbatim>\<open>formatLogData\<close> is meant to return a string for every value. For a symbol the
  template literal of its first branch throws a TypeError outside the \<^verbatim>\<open>try\<close>.
\<close>

theorem formatLogData_symbol_throws:
  "fmt_formatLogData (JsonLogFormatter_methods insp this (Suc n)) h (VSymbol d) = (Inl TypeError, h)"
  by (simp add: formatLogData_def typeof_def template_literal_def)

subsection \<open>Severity filtering and the sink\<close>

text \<open>
  C3. The record is meant to go to the configured transport. \<^verbatim>\<open>Logger.log\<close> prints it
  with \<^verbatim>\<open>console.log\<close> and never calls the transport: a logger with a transport that
  keeps what it receives prints one line for an \<^verbatim>\<open>info\<close> call and hands its transport
  nothing, and no call of any logger changes what a transport has received.
\<close>

theorem log_never_calls_transport:
  "w_sink (snd (log this verbosity message data w)) = w_sink w
   \<and> cfg_transport (sample_logger LvUndefined) = recording_transport
   \<and> log_info (sample_logger LvUndefined) ''m'' VUndefined (empty_world [])
     = (Inr (),
        \<lparr>w_heap = [\<lparr>cls = OrdinaryObject,
                    props = [(''level'', OwnEnumerable, Data (VNum 20)),
                             (''message'', OwnEnumerable, Data (VStr ''m''))]\<rparr>],
         w_stdout = [''{'' @ QuoteJSONString ''level'' @ '':20,'' @ QuoteJSONString ''message''
                     @ '':'' @ QuoteJSONString ''m'' @ ''}''],
         w_sink = []\<rparr>)"
proof -
  have "w_sink (snd (log this verbosity message data w)) = w_sink w"
    by (simp add: log_def console_log_def split: prod.splits sum.splits)
  moreover have "cfg_transport (sample_logger LvUndefined) = recording_transport"
    by (simp add: sample_logger_def new_Logger_def)
  moreover have "log_info (sample_logger LvUndefined) ''m'' VUndefined (empty_world [])
     = (Inr (),
        \<lparr>w_heap = [\<lparr>cls = OrdinaryObject,
                    props = [(''level'', OwnEnumerable, Data (VNum 20)),
                             (''message'', OwnEnumerable, Data (VStr ''m''))]\<rparr>],
         w_stdout = [''{'' @ QuoteJSONString ''level'' @ '':20,'' @ QuoteJSONString ''message''
                     @ '':'' @ QuoteJSONString ''m'' @ ''}''],
         w_sink = []\<rparr>)"
    by code_simp
  ultimately show ?thesis by blast
qed

lemma extends_refl [simp]: "extends h h"
  by (simp add: extends_def)

lemma extends_trans:
  assumes "extends h1 h2" and "extends h2 h3"
  shows "extends h1 h3"
proof -
  have l12: "length h1 \<le> length h2" and t12: "take (length h1) h2 = h1"
    using assms(1) by (simp_all add: extends_def)
  have l23: "length h2 \<le> length h3" and t23: "take (length h2) h3 = h2"
    using assms(2) by (simp_all add: extends_def)
  have "take (length h1) h3 = take (length h1) (take (length h2) h3)"
    using l12 by (simp add: min_def)
  then have "take (length h1) h3 = h1"
    using t12 t23 by simp
  then show ?thesis
    using l12 l23 by (simp add: extends_def)
qed

lemma extends_append: "extends h0 h \<Longrightarrow> extends h0 (h @ xs)"
  by (auto simp: extends_def)

lemma extends_update: "extends h0 h \<Longrightarrow> length h0 \<le> a \<Longrightarrow> extends h0 (h[a := x])"
  by (auto simp: extends_def)

lemma extends_heap_set: "extends h0 h \<Longrightarrow> length h0 \<le> a \<Longrightarrow> extends h0 (heap_set h a k v)"
  by (simp add: heap_set_def extends_update)

lemma extends_Object_assign:
  "extends h0 h \<Longrightarrow> length h0 \<le> t \<Longrightarrow> extends h0 (snd (Object_assign h t src))"
  by (auto simp: Object_assign_def extends_update split: sum.splits)

lemma extends_CopyDataProperties:
  "extends h0 h \<Longrightarrow> length h0 \<le> t \<Longrightarrow> extends h0 (snd (CopyDataProperties h t src))"
  by (auto simp: CopyDataProperties_def extends_update split: sum.splits)

lemma extends_assign_property:
  "extends h0 h \<Longrightarrow> length h0 \<le> t \<Longrightarrow> extends h0 (snd (assign_property h t k v))"
  by (auto simp: assign_property_def extends_update split: sum.splits)

lemma extends_obj_at:
  assumes "extends h h'" and "a < length h"
  shows "obj_at h' a = obj_at h a"
proof -
  have "take (length h) h' ! a = h' ! a"
    using assms(2) by simp
  then have "h' ! a = h ! a"
    using assms(1) by (simp add: extends_def)
  then show ?thesis
    using assms by (simp add: obj_at_def extends_def)
qed

lemma extends_length: "extends h h' \<Longrightarrow> length h \<le> length h'"
  by (simp add: extends_def)

lemma extends_new_logData:
  "extends h0 h \<Longrightarrow> extends h0 (snd (new_logData this level message h))"
  by (simp add: new_logData_def alloc_def Let_def extends_heap_set extends_append extends_length)

lemma fst_new_logData: "fst (new_logData this level message h) = length h"
  by (simp add: new_logData_def alloc_def Let_def)

lemma length_heap_set [simp]: "length (heap_set h a k v) = length h"
  by (simp add: heap_set_def)

lemma length_new_logData: "length (snd (new_logData this level message h)) = Suc (length h)"
  by (simp add: new_logData_def alloc_def Let_def)

lemma extends_data_source:
  assumes a: "allocates_only fmt" and e: "extends h0 h"
  shows "extends h0 (snd (data_source fmt h data))"
proof -
  have "extends h (snd (fmt_formatError fmt h [] data))"
    using a by (simp add: allocates_only_def)
  then have 1: "extends h0 (snd (fmt_formatError fmt h [] data))"
    using e by (rule extends_trans[rotated])
  have 2: "extends h0 (h @ xs)" for xs using e by (rule extends_append)
  show ?thesis
    using 1 2 e by (simp add: data_source_def alloc_def)
qed

lemma extends_build_data:
  assumes a: "allocates_only fmt" and e: "extends h0 h"
  shows "extends h0 (snd (build_data fmt sc data h))"
proof -
  let ?d = "length h"
  let ?h1 = "h @ [empty_object]"
  have e1: "extends h0 ?h1" using e by (rule extends_append)
  have l: "length h0 \<le> ?d" using e by (rule extends_length)
  obtain r2 h2 where oa: "CopyDataProperties ?h1 ?d sc = (r2, h2)"
    by (cases "CopyDataProperties ?h1 ?d sc")
  have e2: "extends h0 h2" using extends_CopyDataProperties[OF e1 l, of sc] oa by simp
  obtain r3 h3 where ds: "data_source fmt h2 data = (r3, h3)" by (cases "data_source fmt h2 data")
  have e3: "extends h0 h3" using extends_data_source[OF a e2, of data] ds by simp
  show ?thesis
  proof (cases r2)
    case (Inl x)
    then show ?thesis using oa e2 by (simp add: build_data_def alloc_def)
  next
    case u: (Inr x)
    show ?thesis
    proof (cases r3)
      case (Inl y)
      then show ?thesis using oa ds u e3 by (simp add: build_data_def alloc_def)
    next
      case (Inr src)
      obtain r4 h4 where o2: "Object_assign h3 ?d src = (r4, h4)" by (cases "Object_assign h3 ?d src")
      have e4: "extends h0 h4" using extends_Object_assign[OF e3 l, of src] o2 by simp
      show ?thesis using oa ds u Inr o2 e4 by (cases r4) (simp_all add: build_data_def alloc_def)
    qed
  qed
qed

lemma extends_getLogData:
  assumes a: "allocates_only fmt" and e: "extends h0 h"
  shows "extends h0 (snd (getLogData this level message data sc fmt h))"
proof -
  obtain r h1 where n: "new_logData this level message h = (r, h1)"
    by (cases "new_logData this level message h")
  have e1: "extends h0 h1"
    using extends_new_logData[OF e, where this = this and level = level and message = message] n by simp
  have r: "r = length h" using fst_new_logData[of this level message h] n by simp
  have l: "length h0 \<le> r" using e r by (simp add: extends_length)
  obtain r2 h2 where b: "build_data fmt sc data h1 = (r2, h2)" by (cases "build_data fmt sc data h1")
  have e2: "extends h0 h2" using extends_build_data[OF a e1, of sc data] b by simp
  show ?thesis
  proof (cases "truthy data \<or> truthy sc")
    case True
    then show ?thesis using n b e2 l
      by (cases r2) (simp_all add: getLogData_def extends_heap_set)
  next
    case False
    then show ?thesis using n e1 by (simp add: getLogData_def)
  qed
qed

lemma extends_log:
  assumes a: "allocates_only (cfg_formatter this)"
  shows "extends (w_heap w) (w_heap (snd (log this verbosity message data w)))"
proof (cases "below_threshold verbosity (cfg_logLevel this)")
  case True
  then show ?thesis by (simp add: log_def)
next
  case False
  obtain r h1 where g: "getLogData this verbosity message data (cfg_scope this) (cfg_formatter this) (w_heap w) = (r, h1)"
    by (cases "getLogData this verbosity message data (cfg_scope this) (cfg_formatter this) (w_heap w)")
  have e1: "extends (w_heap w) h1"
    using extends_getLogData[OF a extends_refl, where this = this and level = verbosity
        and message = message and data = data and sc = "cfg_scope this" and h = "w_heap w"] g by simp
  show ?thesis
  proof (cases r)
    case (Inl e)
    then show ?thesis using False g e1 by (simp add: log_def)
  next
    case (Inr logData)
    obtain t h2 where f: "fmt_formatLogData (cfg_formatter this) h1 (VRef logData) = (t, h2)"
      by (cases "fmt_formatLogData (cfg_formatter this) h1 (VRef logData)")
    have "extends h1 h2" using a f unfolding allocates_only_def by (metis snd_conv)
    then have e2: "extends (w_heap w) h2" using e1 by (blast intro: extends_trans)
    show ?thesis using False g Inr f e2 by (cases t) (simp_all add: log_def console_log_def)
  qed
qed

lemma extends_step:
  "extends h0 h \<Longrightarrow> extends h (snd r) \<Longrightarrow> extends h0 (snd r)"
  by (rule extends_trans)

lemma extends_serialize_members:
  assumes f: "only_allocates f"
  shows "extends h0 h \<Longrightarrow> extends h0 (snd (serialize_members f gap h es))"
proof (induction es arbitrary: h)
  case Nil
  then show ?case by simp
next
  case (Cons e es)
  obtain k s where e: "e = (k, s)" by (cases e)
  show ?case
  proof (cases "read_slot s")
    case (Inl x)
    then show ?thesis using Cons.prems e by simp
  next
    case (Inr v)
    obtain r h1 where c: "f h k v = (r, h1)" by (cases "f h k v")
    have "extends h h1" using f c unfolding only_allocates_def by (metis snd_conv)
    then have e1: "extends h0 h1" using Cons.prems by (blast intro: extends_trans)
    show ?thesis
    proof (cases r)
      case (Inl x)
      then show ?thesis using e Inr c e1 by simp
    next
      case r: (Inr strP)
      obtain r2 h2 where m: "serialize_members f gap h1 es = (r2, h2)"
        by (cases "serialize_members f gap h1 es")
      have e2: "extends h0 h2" using Cons.IH[OF e1] m by simp
      show ?thesis using e Inr c r m e2 by (cases r2) simp_all
    qed
  qed
qed

lemma extends_serialize_elements:
  assumes f: "only_allocates f"
  shows "extends h0 h \<Longrightarrow> extends h0 (snd (serialize_elements f h a is))"
proof (induction "is" arbitrary: h)
  case Nil
  then show ?case by simp
next
  case (Cons i "is")
  show ?case
  proof (cases "Get h a (show_nat i)")
    case (Inl x)
    then show ?thesis using Cons.prems by simp
  next
    case (Inr v)
    obtain r h1 where c: "f h (show_nat i) v = (r, h1)" by (cases "f h (show_nat i) v")
    have "extends h h1" using f c unfolding only_allocates_def by (metis snd_conv)
    then have e1: "extends h0 h1" using Cons.prems by (blast intro: extends_trans)
    show ?thesis
    proof (cases r)
      case (Inl x)
      then show ?thesis using Inr c e1 by simp
    next
      case r: (Inr strP)
      obtain r2 h2 where m: "serialize_elements f h1 a is = (r2, h2)"
        by (cases "serialize_elements f h1 a is")
      have e2: "extends h0 h2" using Cons.IH[OF e1] m by simp
      show ?thesis using Inr c r m e2 by (cases r2) simp_all
    qed
  qed
qed

lemma snd_case_sum_prod:
  "snd (case x of (Inl e, h) \<Rightarrow> (Inl e, h) | (Inr r, h) \<Rightarrow> (g r, h)) = snd x"
  by (cases x) (auto split: sum.splits)

lemma only_allocates_SerializeJSONProperty:
  assumes rep: "only_allocates rep"
  shows "only_allocates (SerializeJSONProperty n rep gap stack indent)"
proof (induction n arbitrary: stack indent)
  case 0
  show ?case by (simp add: only_allocates_def)
next
  case (Suc n)
  show ?case
    unfolding only_allocates_def
  proof (intro allI)
    fix h key v
    show "extends h (snd (SerializeJSONProperty (Suc n) rep gap stack indent h key v))"
    proof (cases "apply_toJSON h v")
      case (Inl e)
      then show ?thesis by simp
    next
      case v1: (Inr v1)
      obtain r h1 where c: "rep h key v1 = (r, h1)" by (cases "rep h key v1")
      have e1: "extends h h1" using rep c unfolding only_allocates_def by (metis snd_conv)
      show ?thesis
      proof (cases r)
        case (Inl e)
        then show ?thesis using v1 c e1 by simp
      next
        case r: (Inr v2)
        show ?thesis
        proof (cases v2)
          case (VRef a)
          let ?F = "SerializeJSONProperty n rep gap (a # stack) (indent @ gap)"
          have el: "extends h (snd (serialize_elements ?F h1 a xs))" for xs
            using extends_serialize_elements[OF Suc.IH e1] .
          have em: "extends h (snd (serialize_members ?F gap h1 es))" for es
            using extends_serialize_members[OF Suc.IH e1] .
          have el': "extends h (snd (case serialize_elements ?F h1 a xs of
                       (Inl e, h2) \<Rightarrow> (Inl e, h2)
                     | (Inr ms, h2) \<Rightarrow> (Inr (Some (json_wrap ''['' '']'' gap (indent @ gap) ms)), h2)))" for xs
            using el[of xs] by (simp add: snd_case_sum_prod)
          have em': "extends h (snd (case serialize_members ?F gap h1 es of
                       (Inl e, h2) \<Rightarrow> (Inl e, h2)
                     | (Inr ms, h2) \<Rightarrow> (Inr (Some (json_wrap ''{'' ''}'' gap (indent @ gap) ms)), h2)))" for es
            using em[of es] by (simp add: snd_case_sum_prod)
          show ?thesis
            using v1 c r VRef e1 el' em' by simp
        qed (use v1 c r e1 in simp_all)
      qed
    qed
  qed
qed

lemma extends_copy_error_keys:
  assumes a: "allocates_only fmt" and l: "length h0 \<le> errObject"
  shows "extends h0 h \<Longrightarrow> extends h0 (snd (copy_error_keys fmt err errObject h keys))"
proof (induction keys arbitrary: h)
  case Nil
  then show ?case by simp
next
  case (Cons key keys)
  show ?case
  proof (cases "has_property h errObject key")
    case True
    then show ?thesis using Cons.IH[OF Cons.prems] by simp
  next
    case False
    show ?thesis
    proof (cases "Get h err key")
      case (Inl e)
      then show ?thesis using False Cons.prems by simp
    next
      case (Inr v)
      obtain r h1 where c: "fmt_formatLogData fmt h v = (r, h1)"
        by (cases "fmt_formatLogData fmt h v")
      have "extends h h1" using a c unfolding allocates_only_def by (metis snd_conv)
      then have e1: "extends h0 h1" using Cons.prems by (blast intro: extends_trans)
      show ?thesis
      proof (cases r)
        case (Inl e)
        then show ?thesis using False Inr c e1 by simp
      next
        case t: (Inr t)
        have "extends h0 (heap_set h1 errObject key (text_value t))"
          using e1 l by (rule extends_heap_set)
        then show ?thesis using False Inr c t Cons.IH by simp
      qed
    qed
  qed
qed

lemma extends_merge_error_properties:
  assumes a: "allocates_only fmt" and l: "length h0 \<le> errObject" and e: "extends h0 h"
  shows "extends h0 (snd (merge_error_properties fmt err errObject h))"
proof -
  have 1: "extends h0 (snd (Object_assign h errObject json))" for json
    using e l by (rule extends_Object_assign)
  have 2: "extends h0 (snd (copy_error_keys fmt err errObject h keys))" for keys
    using a l e by (rule extends_copy_error_keys)
  show ?thesis
    using 1 2 e
    by (simp add: merge_error_properties_def split: sum.splits option.splits)
qed

lemma extends_errorToObject:
  assumes a: "allocates_only fmt"
  shows "extends h0 h \<Longrightarrow> extends h0 (snd (errorToObject n fmt h err))"
proof (induction n arbitrary: h err)
  case 0
  then show ?case by simp
next
  case (Suc n)
  show ?case
  proof (cases "Get h err ''name''")
    case (Inl e)
    then show ?thesis using Suc.prems by simp
  next
    case name: (Inr name)
    show ?thesis
    proof (cases "Get h err ''message''")
      case (Inl e)
      then show ?thesis using name Suc.prems by simp
    next
      case message: (Inr message)
      show ?thesis
      proof (cases "Get h err ''stack''")
        case (Inl e)
        then show ?thesis using name message Suc.prems by simp
      next
        case stack: (Inr stack)
        let ?ob = "\<lparr>cls = OrdinaryObject,
                     props = [(''name'', OwnEnumerable, Data name),
                              (''message'', OwnEnumerable, Data message),
                              (''stack'', OwnEnumerable, Data stack)]\<rparr>"
        let ?eo = "length h"
        let ?h1 = "h @ [?ob]"
        have l: "length h0 \<le> ?eo" using Suc.prems by (rule extends_length)
        have e1: "extends h0 ?h1" using Suc.prems by (rule extends_append)
        obtain r2 h2 where m: "merge_error_properties fmt err ?eo ?h1 = (r2, h2)"
          by (cases "merge_error_properties fmt err ?eo ?h1")
        have e2: "extends h0 h2"
          using extends_merge_error_properties[OF a l e1, of err] m by simp
        show ?thesis
        proof (cases r2)
          case (Inl e)
          then show ?thesis using name message stack m e2
            by (simp add: alloc_def)
        next
          case u: (Inr u)
          show ?thesis
          proof (cases "Get h2 err ''cause''")
            case (Inl e)
            then show ?thesis using name message stack m u e2
              by (simp add: alloc_def)
          next
            case cause: (Inr cause)
            show ?thesis
            proof (cases "truthy cause")
              case False
              then show ?thesis using name message stack m u cause e2
                by (simp add: alloc_def)
            next
              case True
              let ?c = "(case cause of
                          VRef c \<Rightarrow>
                            if instanceof_Error h2 cause then errorToObject n fmt h2 c
                            else (case fmt_formatLogData fmt h2 cause of
                                    (r, h3) \<Rightarrow> (map_sum id text_value r, h3))
                        | _ \<Rightarrow>
                            (case fmt_formatLogData fmt h2 cause of
                               (r, h3) \<Rightarrow> (map_sum id text_value r, h3)))"
              obtain r3 h3 where c: "?c = (r3, h3)" by (cases ?c)
              have f: "extends h0 (snd (fmt_formatLogData fmt h2 cause))"
                using a e2 unfolding allocates_only_def by (blast intro: extends_trans)
              have "extends h0 (snd ?c)"
                using f Suc.IH[OF e2] by (auto split: jsval.splits prod.splits)
              then have e3: "extends h0 h3" using c by simp
              show ?thesis
              proof (cases r3)
                case (Inl e)
                then show ?thesis
                  using name message stack m u cause True c e3 by (simp add: alloc_def)
              next
                case (Inr x)
                obtain r4 h4 where ap: "assign_property h3 ?eo ''cause'' x = (r4, h4)"
                  by (cases "assign_property h3 ?eo ''cause'' x")
                have "extends h0 h4"
                  using extends_assign_property[OF e3 l, of "''cause''" x] ap by simp
                then show ?thesis
                  using name message stack m u cause True c Inr ap
                  by (cases r4) (simp_all add: alloc_def)
              qed
            qed
          qed
        qed
      qed
    qed
  qed
qed

lemma only_allocates_jsonReplacer:
  "allocates_only self \<Longrightarrow> only_allocates (jsonReplacer self)"
  by (simp add: only_allocates_def jsonReplacer_def allocates_only_def split: jsval.splits)

lemma extends_formatLogData:
  assumes "allocates_only self"
  shows "extends h (snd (formatLogData insp this n self h arg))"
proof -
  have "only_allocates (SerializeJSONProperty n (jsonReplacer self)
           (gap_of (jsonStringifySpace this)) [] [])"
    using assms by (intro only_allocates_SerializeJSONProperty only_allocates_jsonReplacer)
  then have "extends h (snd (JSON_stringify n (jsonReplacer self) (jsonStringifySpace this) h arg))"
    by (simp add: only_allocates_def JSON_stringify_def)
  then show ?thesis
    by (auto simp add: formatLogData_def split: sum.splits prod.splits)
qed

lemma extends_formatError:
  assumes "allocates_only self"
  shows "extends h (snd (formatError n self h key err))"
  using extends_errorToObject[OF assms extends_refl]
  by (simp add: formatError_def split: jsval.splits)

lemma allocates_only_JsonLogFormatter:
  "allocates_only (JsonLogFormatter_methods insp this n)"
proof (induction n)
  case 0
  show ?case by (simp add: allocates_only_def)
next
  case (Suc n)
  show ?case
    unfolding allocates_only_def
    using extends_formatLogData[OF Suc] extends_formatError[OF Suc]
    by simp
qed

lemma obj_at_update:
  "obj_at (h[t := x]) a = (if a = t \<and> t < length h then x else obj_at h a)"
  by (simp add: obj_at_def)

lemma obj_at_append:
  "obj_at (h @ [x]) a = (if a = length h then x else obj_at h a)"
  by (auto simp: obj_at_def nth_append empty_object_def)








lemma object_values_Nil [simp]: "object_values [] = Map.empty"
  by (simp add: object_values_def entry_values_def fun_eq_iff)










lemma data_field_absent:
  assumes "\<not> (truthy data \<or> truthy sc)"
      and "getLogData this level message data sc fmt h = (Inr r, h')"
  shows "data_field h' r = None"
proof -
  have "h' = snd (new_logData this level message h)" and "r = length h"
    using assms by (auto simp: getLogData_def new_logData_def alloc_def Let_def split: prod.splits)
  then show ?thesis
    by (simp add: new_logData_def alloc_def Let_def data_field_def Get_def heap_set_def
          obj_at_append obj_at_update read_slot_def)
qed

lemma data_field_present:
  assumes "Get h r ''data'' = Inr (VRef d)" and "props (obj_at h d) = ps"
  shows "data_field h r = Some ps"
  using assms by (simp add: data_field_def)

lemma toJSON_not_inherited: "''toJSON'' \<notin> set Object_prototype_keys"
  by code_simp

lemma errorToObject_plain_error:
  assumes o: "obj_at h e = plain_error name message stack" and l: "e < length h"
  shows "errorToObject (Suc n) fmt h e
         = (Inr (VRef (length h)),
            h @ [\<lparr>cls = OrdinaryObject,
                  props = [(''name'', OwnEnumerable, Data (VStr name)),
                           (''message'', OwnEnumerable, Data (VStr message)),
                           (''stack'', OwnEnumerable, Data (VStr stack))]\<rparr>])"
proof -
  let ?ob = "\<lparr>cls = OrdinaryObject,
                  props = [(''name'', OwnEnumerable, Data (VStr name)),
                           (''message'', OwnEnumerable, Data (VStr message)),
                           (''stack'', OwnEnumerable, Data (VStr stack))]\<rparr>"
  have o': "obj_at (h @ [?ob]) e = plain_error name message stack"
    using o l by (simp add: obj_at_append)
  have g1: "Get h e ''name'' = Inr (VStr name)" "Get h e ''message'' = Inr (VStr message)"
           "Get h e ''stack'' = Inr (VStr stack)"
    by (simp_all add: Get_def o plain_error_def read_slot_def)
  have hp: "\<not> has_property (h @ [?ob]) e ''toJSON''"
    by (simp add: has_property_def o' plain_error_def toJSON_not_inherited)
  have fk: "for_in_keys (props (obj_at (h @ [?ob]) e)) = []"
    by (simp add: o' plain_error_def for_in_keys_def own_enumerable_def key_order_def)
  have m: "merge_error_properties fmt e (length h) (h @ [?ob]) = (Inr (), h @ [?ob])"
    by (simp add: merge_error_properties_def hp callable_def fk)
  have g2: "Get (h @ [?ob]) e ''cause'' = Inr VUndefined"
    by (simp add: Get_def o' plain_error_def)
  show ?thesis
    by (simp add: g1 alloc_def m g2 truthy_def)
qed

lemma fmt_formatError_methods:
  "fmt_formatError (JsonLogFormatter_methods insp this (Suc n))
     = formatError n (JsonLogFormatter_methods insp this n)"
  by simp

lemma fmt_formatLogData_methods:
  "fmt_formatLogData (JsonLogFormatter_methods insp this (Suc n))
     = formatLogData insp this n (JsonLogFormatter_methods insp this n)"
  by simp

lemma jsonReplacer_plain:
  assumes "cls (obj_at h a) = OrdinaryObject \<or> cls (obj_at h a) = ArrayObject"
  shows "jsonReplacer self h key (VRef a) = (Inr (VRef a), h)"
  using assms
  by (auto simp: jsonReplacer_def typeof_def instanceof_RegExp_def instanceof_Promise_def
        instanceof_Error_def)

lemma jsonReplacer_num: "jsonReplacer self h key (VNum i) = (Inr (VNum i), h)"
  by (simp add: jsonReplacer_def typeof_def instanceof_RegExp_def instanceof_Promise_def
        instanceof_Error_def)

lemma jsonReplacer_str: "jsonReplacer self h key (VStr s) = (Inr (VStr s), h)"
  by (simp add: jsonReplacer_def typeof_def instanceof_RegExp_def instanceof_Promise_def
        instanceof_Error_def)

lemma jsonReplacer_undefined:
  "jsonReplacer self h key VUndefined = (Inr (VStr ''FakeValue { undefined }''), h)"
  by (simp add: jsonReplacer_def typeof_def instanceof_RegExp_def instanceof_Promise_def
        instanceof_Error_def)

lemma serialize_num:
  "SerializeJSONProperty (Suc n) (jsonReplacer self) gap stack indent h key (VNum i)
   = (Inr (Some (show_int i)), h)"
  by (simp add: apply_toJSON_def jsonReplacer_num)

lemma serialize_str:
  "SerializeJSONProperty (Suc n) (jsonReplacer self) gap stack indent h key (VStr s)
   = (Inr (Some (QuoteJSONString s)), h)"
  by (simp add: apply_toJSON_def jsonReplacer_str)

lemma serialize_undefined:
  "SerializeJSONProperty (Suc n) (jsonReplacer self) gap stack indent h key VUndefined
   = (Inr (Some (QuoteJSONString ''FakeValue { undefined }'')), h)"
  by (simp add: apply_toJSON_def jsonReplacer_undefined)

lemma apply_toJSON_none:
  "map_of (props (obj_at h a)) ''toJSON'' = None \<Longrightarrow> apply_toJSON h (VRef a) = Inr (VRef a)"
  by (simp add: apply_toJSON_def Get_def callable_def)

lemma serialize_plain_object:
  assumes "cls (obj_at h a) = OrdinaryObject"
      and "map_of (props (obj_at h a)) ''toJSON'' = None"
      and "a \<notin> set stack"
  shows "SerializeJSONProperty (Suc n) (jsonReplacer self) gap stack indent h key (VRef a)
         = (case serialize_members
                   (SerializeJSONProperty n (jsonReplacer self) gap (a # stack) (indent @ gap))
                   gap h (own_enumerable (props (obj_at h a))) of
              (Inl e, h2) \<Rightarrow> (Inl e, h2)
            | (Inr ms, h2) \<Rightarrow> (Inr (Some (json_wrap ''{'' ''}'' gap (indent @ gap) ms)), h2))"
  using assms
  by (simp add: apply_toJSON_none jsonReplacer_plain is_function_def isArray_def)

lemma serialize_members_undefined:
  assumes fu: "\<And>h key r h'. f h key VUndefined = (Inr r, h') \<Longrightarrow> r = Some u"
  shows "serialize_members f gap h es = (Inr ms, h') \<Longrightarrow> (k, s) \<in> set es \<Longrightarrow>
         read_slot s = Inr VUndefined \<Longrightarrow> member_text gap k u \<in> set ms"
proof (induction es arbitrary: h ms h')
  case Nil
  then show ?case by simp
next
  case (Cons e es)
  obtain k' s' where e: "e = (k', s')" by (cases e)
  obtain v where v: "read_slot s' = Inr v"
    using Cons.prems(1) e by (cases "read_slot s'") simp_all
  obtain r h1 where c: "f h k' v = (r, h1)" by (cases "f h k' v")
  obtain strP where r: "r = Inr strP"
    using Cons.prems(1) e v c by (cases r) simp_all
  obtain r2 h2 where m: "serialize_members f gap h1 es = (r2, h2)"
    by (cases "serialize_members f gap h1 es")
  obtain ms' where r2: "r2 = Inr ms'"
    using Cons.prems(1) e v c r m by (cases r2) simp_all
  have ms: "ms = (case strP of None \<Rightarrow> [] | Some str \<Rightarrow> [member_text gap k' str]) @ ms'"
    using Cons.prems(1) e v c r m r2 by (auto simp: member_text_def split: option.splits)
  show ?case
  proof (cases "(k, s) = (k', s')")
    case True
    then have "v = VUndefined" using v Cons.prems(3) by simp
    then have "strP = Some u" using fu c r by blast
    then show ?thesis using ms True by simp
  next
    case False
    then have "(k, s) \<in> set es" using Cons.prems(2) e by auto
    then have "member_text gap k u \<in> set ms'"
      using Cons.IH[OF m[unfolded r2] _ Cons.prems(3)] by simp
    then show ?thesis using ms by simp
  qed
qed

lemma join_sublist: "m \<in> set ms \<Longrightarrow> sublist m (join sep ms)"
proof (induction sep ms rule: join.induct)
  case (1 sep)
  then show ?case by simp
next
  case (2 sep x)
  then show ?case by simp
next
  case (3 sep x y ys)
  show ?case
  proof (cases "m = x")
    case True
    then show ?thesis by simp
  next
    case False
    then have "sublist m (join sep (y # ys))" using 3 by simp
    then obtain ps ss where "join sep (y # ys) = ps @ m @ ss" by (auto simp: sublist_def)
    then have "join sep (x # y # ys) = (x @ sep @ ps) @ m @ ss" by simp
    then show ?thesis unfolding sublist_def by blast
  qed
qed

lemma json_wrap_sublist:
  assumes "m \<in> set ms"
  shows "sublist m (json_wrap opening closing gap indent ms)"
proof -
  have ne: "ms \<noteq> []" using assms by auto
  have j: "\<exists>ps ss. join sep ms = ps @ m @ ss" for sep
    using join_sublist[OF assms, of sep] by (auto simp: sublist_def)
  show ?thesis
  proof (cases "gap = []")
    case True
    obtain ps ss where "join '','' ms = ps @ m @ ss" using j by blast
    then have "json_wrap opening closing gap indent ms = (opening @ ps) @ m @ (ss @ closing)"
      using ne True by (simp add: json_wrap_def)
    then show ?thesis unfolding sublist_def by blast
  next
    case False
    obtain ps ss where "join ('','' @ [newline] @ indent) ms = ps @ m @ ss" using j by blast
    then have "json_wrap opening closing gap indent ms
               = (opening @ [newline] @ indent @ ps) @ m
                 @ (ss @ [newline] @ take (length indent - length gap) indent @ closing)"
      using ne False by (simp add: json_wrap_def)
    then show ?thesis unfolding sublist_def by blast
  qed
qed

lemma undefined_property_lemma:
  assumes c: "cls (obj_at h a) = OrdinaryObject"
      and tj: "map_of (props (obj_at h a)) ''toJSON'' = None"
      and p: "(k, OwnEnumerable, s) \<in> set (props (obj_at h a))"
      and rs: "read_slot s = Inr VUndefined"
      and j: "JSON_stringify n (jsonReplacer self) (jsonStringifySpace this) h (VRef a) = (Inr res, h')"
  shows "\<exists>t. res = Some t
            \<and> sublist (member_text (gap_of (jsonStringifySpace this)) k
                         (QuoteJSONString ''FakeValue { undefined }'')) t
            \<and> formatLogData insp this n self h (VRef a) = (Inr (Some t), h')"
proof -
  let ?gap = "gap_of (jsonStringifySpace this)"
  obtain n' where n: "n = Suc n'"
    using j by (cases n) (simp_all add: JSON_stringify_def)
  let ?F = "SerializeJSONProperty n' (jsonReplacer self) ?gap [a] ([] @ ?gap)"
  let ?es = "own_enumerable (props (obj_at h a))"
  obtain rm hm where m: "serialize_members ?F ?gap h ?es = (rm, hm)"
    by (cases "serialize_members ?F ?gap h ?es")
  have s: "SerializeJSONProperty (Suc n') (jsonReplacer self) ?gap [] [] h [] (VRef a)
           = (case (rm, hm) of
                (Inl e, h2) \<Rightarrow> (Inl e, h2)
              | (Inr ms, h2) \<Rightarrow> (Inr (Some (json_wrap ''{'' ''}'' ?gap ([] @ ?gap) ms)), h2))"
    using serialize_plain_object[OF c tj, of "[]" n' self ?gap "[]" "[]"] m by simp
  obtain ms where rm: "rm = Inr ms"
    using j n s by (cases rm) (simp_all add: JSON_stringify_def)
  have res: "res = Some (json_wrap ''{'' ''}'' ?gap ?gap ms)" and hh: "h' = hm"
    using j n s rm by (simp_all add: JSON_stringify_def)
  have fu: "\<And>h key r h'. ?F h key VUndefined = (Inr r, h')
              \<Longrightarrow> r = Some (QuoteJSONString ''FakeValue { undefined }'')"
    by (cases n') (simp_all add: serialize_undefined del: SerializeJSONProperty.simps(2))
  have "(k, s) \<in> set ?es"
    using p by (force simp: own_enumerable_def key_order_def)
  then have "member_text ?gap k (QuoteJSONString ''FakeValue { undefined }'') \<in> set ms"
    using serialize_members_undefined[of ?F _ ?gap h ?es ms hm k s, OF fu m[unfolded rm] _ rs]
    by simp
  then have sl: "sublist (member_text ?gap k (QuoteJSONString ''FakeValue { undefined }''))
                   (json_wrap ''{'' ''}'' ?gap ?gap ms)"
    by (rule json_wrap_sublist)
  have ty: "typeof h (VRef a) = TObject"
    using c by (simp add: typeof_def is_function_def)
  have "formatLogData insp this n self h (VRef a) = (Inr res, h')"
    using j ty by (simp add: formatLogData_def)
  then show ?thesis using res sl by blast
qed

text \<open>
  C9, as the claim states it, fails: an error with an enumerable property \<^verbatim>\<open>code\<close> whose
  value is undefined is an object with such a key, and the key is rendered as the string
  \<^verbatim>\<open>"undefined"\<close>, since the properties of an error go through \<^verbatim>\<open>formatLogData\<close>.
\<close>

theorem error_property_undefined_not_sentinel:
  "(''code'', OwnEnumerable, Data VUndefined) \<in> set (props (obj_at error_with_undefined_code 0))
   \<and> fst (fmt_formatLogData (sample_formatter True) error_with_undefined_code (VRef 0))
     = Inr (Some (''{'' @ member_text [] ''name'' (QuoteJSONString ''Error'')
                  @ '','' @ member_text [] ''message'' (QuoteJSONString ''boom'')
                  @ '','' @ member_text [] ''stack'' (QuoteJSONString ''Error: boom'')
                  @ '','' @ member_text [] ''code'' (QuoteJSONString ''undefined'') @ ''}''))
   \<and> \<not> sublist (QuoteJSONString ''FakeValue { undefined }'')
         (''{'' @ member_text [] ''name'' (QuoteJSONString ''Error'')
                  @ '','' @ member_text [] ''message'' (QuoteJSONString ''boom'')
                  @ '','' @ member_text [] ''stack'' (QuoteJSONString ''Error: boom'')
                  @ '','' @ member_text [] ''code'' (QuoteJSONString ''undefined'') @ ''}'')"
  by code_simp

lemma undefined_example:
  "fst (fmt_formatLogData (sample_formatter True) undefined_example_heap (VRef 0))
     = Inr (Some (''{'' @ member_text [] ''defined'' (QuoteJSONString ''value'')
                  @ '','' @ member_text [] ''notDefined'' (QuoteJSONString ''FakeValue { undefined }'')
                  @ ''}''))
   \<and> fst (fmt_formatLogData (sample_formatter False) undefined_example_heap (VRef 0))
     = Inr (Some (''{'' @ [newline] @ ''  '' @ member_text ''  '' ''defined'' (QuoteJSONString ''value'')
                  @ '','' @ [newline] @ ''  ''
                  @ member_text ''  '' ''notDefined'' (QuoteJSONString ''FakeValue { undefined }'')
                  @ [newline] @ ''}''))"
  by code_simp

text \<open>
  C9, amended. For every ordinary object without a \<^verbatim>\<open>toJSON\<close> method that has an own
  enumerable property whose value is undefined, whenever \<^verbatim>\<open>JSON.stringify\<close> with the
  formatter's replacer returns, \<^verbatim>\<open>formatLogData\<close> returns its text, and the text
  contains the member with that key and the value \<^verbatim>\<open>"FakeValue { undefined }"\<close>: the key
  is not left out. \<^verbatim>\<open>{defined: "value", notDefined: undefined}\<close> is rendered so, compact
  and indented.
\<close>

theorem undefined_property_rendered_as_sentinel:
  assumes "cls (obj_at h a) = OrdinaryObject"
      and "map_of (props (obj_at h a)) ''toJSON'' = None"
      and "(k, OwnEnumerable, s) \<in> set (props (obj_at h a))"
      and "read_slot s = Inr VUndefined"
      and "JSON_stringify n (jsonReplacer self) (jsonStringifySpace this) h (VRef a) = (Inr res, h')"
  shows "(\<exists>t. res = Some t
            \<and> sublist (member_text (gap_of (jsonStringifySpace this)) k
                         (QuoteJSONString ''FakeValue { undefined }'')) t
            \<and> formatLogData insp this n self h (VRef a) = (Inr (Some t), h'))
         \<and> fst (fmt_formatLogData (sample_formatter True) undefined_example_heap (VRef 0))
             = Inr (Some (''{'' @ member_text [] ''defined'' (QuoteJSONString ''value'')
                  @ '','' @ member_text [] ''notDefined'' (QuoteJSONString ''FakeValue { undefined }'')
                  @ ''}''))
         \<and> fst (fmt_formatLogData (sample_formatter False) undefined_example_heap (VRef 0))
             = Inr (Some (''{'' @ [newline] @ ''  '' @ member_text ''  '' ''defined'' (QuoteJSONString ''value'')
                  @ '','' @ [newline] @ ''  ''
                  @ member_text ''  '' ''notDefined'' (QuoteJSONString ''FakeValue { undefined }'')
                  @ [newline] @ ''}''))"
  using undefined_property_lemma[OF assms] undefined_example by blast

theorem undefined_property_rendered_as_sentinel_witness:
  "cls (obj_at undefined_example_heap 0) = OrdinaryObject
   \<and> map_of (props (obj_at undefined_example_heap 0)) ''toJSON'' = None
   \<and> (''notDefined'', OwnEnumerable, Data VUndefined) \<in> set (props (obj_at undefined_example_heap 0))
   \<and> read_slot (Data VUndefined) = Inr VUndefined
   \<and> fst (JSON_stringify 3 (jsonReplacer (sample_formatter True))
            (jsonStringifySpace (new_JsonLogFormatter \<lparr>compact_option = Some True\<rparr>))
            undefined_example_heap (VRef 0))
       = Inr (Some (''{'' @ member_text [] ''defined'' (QuoteJSONString ''value'')
                  @ '','' @ member_text [] ''notDefined'' (QuoteJSONString ''FakeValue { undefined }'')
                  @ ''}''))
   \<and> sublist (member_text (gap_of (jsonStringifySpace (new_JsonLogFormatter \<lparr>compact_option = Some True\<rparr>)))
                ''notDefined'' (QuoteJSONString ''FakeValue { undefined }''))
         (''{'' @ member_text [] ''defined'' (QuoteJSONString ''value'')
                  @ '','' @ member_text [] ''notDefined'' (QuoteJSONString ''FakeValue { undefined }'')
                  @ ''}'')"
proof -
  let ?fm = "new_JsonLogFormatter \<lparr>compact_option = Some True\<rparr>"
  let ?J = "JSON_stringify 3 (jsonReplacer (sample_formatter True)) (jsonStringifySpace ?fm)
              undefined_example_heap (VRef 0)"
  let ?t = "''{'' @ member_text [] ''defined'' (QuoteJSONString ''value'')
                  @ '','' @ member_text [] ''notDefined'' (QuoteJSONString ''FakeValue { undefined }'')
                  @ ''}''"
  have c: "cls (obj_at undefined_example_heap 0) = OrdinaryObject" by code_simp
  have tj: "map_of (props (obj_at undefined_example_heap 0)) ''toJSON'' = None" by code_simp
  have p: "(''notDefined'', OwnEnumerable, Data VUndefined) \<in> set (props (obj_at undefined_example_heap 0))"
    by code_simp
  have rs: "read_slot (Data VUndefined) = Inr VUndefined" by (simp add: read_slot_def)
  have f: "fst ?J = Inr (Some ?t)" by code_simp
  then have j: "?J = (Inr (Some ?t), snd ?J)" by (simp add: prod_eq_iff)
  from undefined_property_rendered_as_sentinel[OF c tj p rs j]
  have "sublist (member_text (gap_of (jsonStringifySpace ?fm)) ''notDefined''
                   (QuoteJSONString ''FakeValue { undefined }'')) ?t"
    by blast
  with c tj p rs f show ?thesis by blast
qed

text \<open>
  C8, as the claim states it, fails: for a record with a context and data, the text lists
  \<^verbatim>\<open>context\<close> before \<^verbatim>\<open>data\<close>, because getLogData adds the context to the record
  first.
\<close>

theorem record_lists_context_before_data:
  "w_stdout (snd (log_info (context_logger False) ''m'' (VRef 1) (empty_world context_example_heap)))
   = [''{'' @ [newline]
      @ ''  '' @ member_text ''  '' ''level'' ''20'' @ '','' @ [newline]
      @ ''  '' @ member_text ''  '' ''message'' (QuoteJSONString ''m'') @ '','' @ [newline]
      @ ''  '' @ member_text ''  '' ''context''
                  (''{'' @ [newline] @ ''    '' @ member_text ''  '' ''requestId'' (QuoteJSONString ''X'')
                   @ [newline] @ ''  }'') @ '','' @ [newline]
      @ ''  '' @ member_text ''  '' ''data''
                  (''{'' @ [newline] @ ''    '' @ member_text ''  '' ''k'' (QuoteJSONString ''v'')
                   @ [newline] @ ''  }'') @ [newline]
      @ ''}'']"
  by code_simp

lemma compact_record_example:
  "w_stdout (snd (log_info (context_logger True) ''m'' (VRef 1) (empty_world context_example_heap)))
   = [''{'' @ member_text [] ''level'' ''20'' @ '',''
      @ member_text [] ''message'' (QuoteJSONString ''m'') @ '',''
      @ member_text [] ''context'' (''{'' @ member_text [] ''requestId'' (QuoteJSONString ''X'') @ ''}'')
      @ '','' @ member_text [] ''data'' (''{'' @ member_text [] ''k'' (QuoteJSONString ''v'') @ ''}'')
      @ ''}'']"
  by code_simp

lemma new_logData_props:
  "new_logData this level message h = (r, hn) \<Longrightarrow>
   r = length h \<and> length hn = Suc (length h)
   \<and> obj_at hn r = \<lparr>cls = OrdinaryObject,
                     props = record_props (int (level_num level)) message
                               (if truthy (context_of this level message h)
                                then Some (context_of this level message h) else None) None\<rparr>"
  by (auto simp: new_logData_def alloc_def Let_def context_of_def record_props_def heap_set_def
        obj_at_append obj_at_update)

lemma set_prop_record_data:
  "set_prop (record_props n m ctx None) ''data'' v = record_props n m ctx (Some v)"
  by (cases ctx) (simp_all add: record_props_def)

lemma record_keys_not_indices:
  "\<not> is_array_index ''level''" "\<not> is_array_index ''message''"
  "\<not> is_array_index ''context''" "\<not> is_array_index ''data''"
  by code_simp+

lemma own_enumerable_record:
  "own_enumerable (record_props n m ctx dat) =
     [(''level'', Data (VNum n)), (''message'', Data (VStr m))]
     @ (case ctx of None \<Rightarrow> [] | Some c \<Rightarrow> [(''context'', Data c)])
     @ (case dat of None \<Rightarrow> [] | Some d \<Rightarrow> [(''data'', Data d)])"
  by (cases ctx; cases dat)
     (simp_all add: record_props_def own_enumerable_def key_order_def record_keys_not_indices)

lemma record_no_toJSON: "map_of (record_props n m ctx dat) ''toJSON'' = None"
  by (cases ctx; cases dat) (simp_all add: record_props_def)

lemma hex_digit_no_newline: "hex_digit d \<noteq> newline"
proof -
  have "hex_digit d \<in> set ''0123456789abcdef''"
    unfolding hex_digit_def by (rule nth_mem) simp
  then show ?thesis by (auto simp: newline_def)
qed

lemma digit_char_no_newline: "digit_char d \<noteq> newline"
proof -
  have "digit_char d \<in> set ''0123456789''"
    unfolding digit_char_def by (rule nth_mem) simp
  then show ?thesis by (auto simp: newline_def)
qed

lemma newline_distinct:
  "newline \<noteq> backslash" "newline \<noteq> dquote" "newline \<noteq> CHR ''b''" "newline \<noteq> CHR ''t''"
  "newline \<noteq> CHR ''n''" "newline \<noteq> CHR ''f''" "newline \<noteq> CHR ''r''" "newline \<noteq> CHR ''u''"
  "newline \<noteq> CHR ''0''"
  by (simp_all add: newline_def backslash_def dquote_def)

lemma escape_char_no_newline: "newline \<notin> set (escape_char c)"
proof -
  have "of_char c \<noteq> (10::nat) \<Longrightarrow> newline \<noteq> c"
    by (auto simp: newline_def)
  then show ?thesis
    using hex_digit_no_newline[of "of_char c div 16"] hex_digit_no_newline[of "of_char c"]
    by (auto simp: escape_char_def Let_def newline_distinct)
qed

lemma QuoteJSONString_no_newline: "newline \<notin> set (QuoteJSONString s)"
  using escape_char_no_newline by (auto simp: QuoteJSONString_def newline_distinct)

lemma show_nat_no_newline: "newline \<notin> set (show_nat n)"
proof (induction n rule: show_nat.induct)
  case (1 n)
  show ?case
  proof (cases "n < 10")
    case True
    then show ?thesis
      using digit_char_no_newline[of n] by (subst show_nat.simps) auto
  next
    case False
    then show ?thesis
      using 1 digit_char_no_newline[of "n mod 10"] by (subst show_nat.simps) auto
  qed
qed

lemma show_int_no_newline: "newline \<notin> set (show_int i)"
  using show_nat_no_newline by (auto simp: show_int_def newline_def)

lemma join_no_newline:
  "\<forall>m \<in> set ms. newline \<notin> set m \<Longrightarrow> newline \<notin> set sep \<Longrightarrow> newline \<notin> set (join sep ms)"
  by (induction sep ms rule: join.induct) auto

lemma json_wrap_compact_no_newline:
  assumes "\<forall>m \<in> set ms. newline \<notin> set m"
      and "newline \<notin> set opening" and "newline \<notin> set closing"
  shows "newline \<notin> set (json_wrap opening closing [] indent ms)"
  using assms join_no_newline[of ms "'',''"]
  by (auto simp: json_wrap_def newline_def)

lemma member_text_no_newline:
  "newline \<notin> set t \<Longrightarrow> newline \<notin> set (member_text [] k t)"
  using QuoteJSONString_no_newline[of k] by (auto simp: member_text_def newline_def)

lemma serialize_members_no_newline:
  assumes f: "\<And>h k v t h'. f h k v = (Inr (Some t), h') \<Longrightarrow> newline \<notin> set t"
  shows "serialize_members f [] h es = (Inr ms, h') \<Longrightarrow> \<forall>m \<in> set ms. newline \<notin> set m"
proof (induction es arbitrary: h ms h')
  case Nil
  then show ?case by simp
next
  case (Cons e es)
  obtain k s where e: "e = (k, s)" by (cases e)
  obtain v where v: "read_slot s = Inr v"
    using Cons.prems e by (cases "read_slot s") simp_all
  obtain r h1 where c: "f h k v = (r, h1)" by (cases "f h k v")
  obtain strP where r: "r = Inr strP"
    using Cons.prems e v c by (cases r) simp_all
  obtain r2 h2 where m: "serialize_members f [] h1 es = (r2, h2)"
    by (cases "serialize_members f [] h1 es")
  obtain ms' where r2: "r2 = Inr ms'"
    using Cons.prems e v c r m by (cases r2) simp_all
  have ms: "ms = optional_member [] k strP @ ms'"
    using Cons.prems e v c r m r2
    by (auto simp: optional_member_def member_text_def split: option.splits)
  have 1: "\<forall>m \<in> set ms'. newline \<notin> set m"
    using Cons.IH[OF m[unfolded r2]] .
  have 2: "\<forall>m \<in> set (optional_member [] k strP). newline \<notin> set m"
  proof (cases strP)
    case None
    then show ?thesis by (simp add: optional_member_def)
  next
    case (Some t)
    then have "newline \<notin> set t" using f c r by blast
    then show ?thesis using Some by (simp add: optional_member_def member_text_no_newline)
  qed
  show ?case using ms 1 2 by auto
qed

lemma serialize_elements_no_newline:
  assumes f: "\<And>h k v t h'. f h k v = (Inr (Some t), h') \<Longrightarrow> newline \<notin> set t"
  shows "serialize_elements f h a is = (Inr ms, h') \<Longrightarrow> \<forall>m \<in> set ms. newline \<notin> set m"
proof (induction "is" arbitrary: h ms h')
  case Nil
  then show ?case by simp
next
  case (Cons i "is")
  obtain v where v: "Get h a (show_nat i) = Inr v"
    using Cons.prems by (cases "Get h a (show_nat i)") simp_all
  obtain r h1 where c: "f h (show_nat i) v = (r, h1)" by (cases "f h (show_nat i) v")
  obtain strP where r: "r = Inr strP"
    using Cons.prems v c by (cases r) simp_all
  obtain r2 h2 where m: "serialize_elements f h1 a is = (r2, h2)"
    by (cases "serialize_elements f h1 a is")
  obtain ms' where r2: "r2 = Inr ms'"
    using Cons.prems v c r m by (cases r2) simp_all
  have ms: "ms = (case strP of None \<Rightarrow> ''null'' | Some str \<Rightarrow> str) # ms'"
    using Cons.prems v c r m r2 by auto
  have 1: "\<forall>m \<in> set ms'. newline \<notin> set m"
    using Cons.IH[OF m[unfolded r2]] .
  have 2: "newline \<notin> set (case strP of None \<Rightarrow> ''null'' | Some str \<Rightarrow> str)"
  proof (cases strP)
    case None
    then show ?thesis by (simp add: newline_def)
  next
    case (Some t)
    then show ?thesis using f c r by auto
  qed
  show ?case using ms 1 2 by auto
qed

lemma serialize_compact_single_line:
  "SerializeJSONProperty n rep [] stack indent h key v = (Inr (Some t), h') \<Longrightarrow> newline \<notin> set t"
proof (induction n arbitrary: stack indent h key v t h')
  case 0
  then show ?case by simp
next
  case (Suc n)
  obtain v1 where v1: "apply_toJSON h v = Inr v1"
    using Suc.prems by (cases "apply_toJSON h v") simp_all
  obtain r h1 where c: "rep h key v1 = (r, h1)" by (cases "rep h key v1")
  obtain v2 where r: "r = Inr v2"
    using Suc.prems v1 c by (cases r) simp_all
  show ?case
  proof (cases v2)
    case (VRef a)
    let ?F = "SerializeJSONProperty n rep [] (a # stack) (indent @ [])"
    have nf: "\<not> is_function h1 a" and ns: "a \<notin> set stack"
      using Suc.prems v1 c r VRef by (auto split: if_splits)
    have F: "\<And>h k v t h'. ?F h k v = (Inr (Some t), h') \<Longrightarrow> newline \<notin> set t"
      using Suc.IH by blast
    show ?thesis
    proof (cases "isArray h1 (VRef a)")
      case True
      obtain rm hm where m: "serialize_elements ?F h1 a [0 ..< array_length h1 a] = (rm, hm)"
        by (cases "serialize_elements ?F h1 a [0 ..< array_length h1 a]")
      obtain ms where rm: "rm = Inr ms"
        using Suc.prems v1 c r VRef nf ns True m by (cases rm) simp_all
      have t: "t = json_wrap ''['' '']'' [] (indent @ []) ms"
        using Suc.prems v1 c r VRef nf ns True m rm by simp
      have "\<forall>m \<in> set ms. newline \<notin> set m"
        using serialize_elements_no_newline[of ?F, OF F m[unfolded rm]] .
      then show ?thesis
        unfolding t by (intro json_wrap_compact_no_newline) (simp_all add: newline_def)
    next
      case False
      let ?es = "own_enumerable (props (obj_at h1 a))"
      obtain rm hm where m: "serialize_members ?F [] h1 ?es = (rm, hm)"
        by (cases "serialize_members ?F [] h1 ?es")
      obtain ms where rm: "rm = Inr ms"
        using Suc.prems v1 c r VRef nf ns False m by (cases rm) simp_all
      have t: "t = json_wrap ''{'' ''}'' [] (indent @ []) ms"
        using Suc.prems v1 c r VRef nf ns False m rm by simp
      have "\<forall>m \<in> set ms. newline \<notin> set m"
        using serialize_members_no_newline[of ?F, OF F m[unfolded rm]] .
      then show ?thesis
        unfolding t by (intro json_wrap_compact_no_newline) (simp_all add: newline_def)
    qed
  next
    case (VStr s)
    then show ?thesis
      using Suc.prems v1 c r QuoteJSONString_no_newline[of s] by auto
  next
    case (VNum i)
    then show ?thesis
      using Suc.prems v1 c r show_int_no_newline[of i] by auto
  qed (use Suc.prems v1 c r in \<open>auto simp: newline_def split: if_splits\<close>)
qed

lemma record_text_indented:
  "record_text ''  '' l m (Some tc) (Some td) =
     ''{'' @ [newline]
     @ ''  '' @ member_text ''  '' ''level'' (show_int l) @ '','' @ [newline]
     @ ''  '' @ member_text ''  '' ''message'' (QuoteJSONString m) @ '','' @ [newline]
     @ ''  '' @ member_text ''  '' ''context'' tc @ '','' @ [newline]
     @ ''  '' @ member_text ''  '' ''data'' td @ [newline]
     @ ''}''"
  by (simp add: record_text_def json_wrap_def)

lemma record_text_compact:
  "record_text [] l m (Some tc) (Some td) =
     ''{'' @ member_text [] ''level'' (show_int l) @ '',''
     @ member_text [] ''message'' (QuoteJSONString m) @ '',''
     @ member_text [] ''context'' tc @ '','' @ member_text [] ''data'' td @ ''}''"
  by (simp add: record_text_def json_wrap_def)

lemma gap_of_new_JsonLogFormatter:
  "gap_of (jsonStringifySpace (new_JsonLogFormatter opts))
     = (if compact (new_JsonLogFormatter opts) then [] else ''  '')"
  by (simp add: new_JsonLogFormatter_def gap_of_def Let_def numeral_2_eq_2)

lemma plain_properties_Nil [simp]: "plain_properties []"
  by (simp add: plain_properties_def)























lemma log_below_threshold:
  "below_threshold verbosity (cfg_logLevel this) \<Longrightarrow>
   log this verbosity message data w = (Inr (), w)"
  by (simp add: log_def)

lemma log_at_threshold:
  assumes "\<not> below_threshold verbosity (cfg_logLevel this)"
      and "getLogData this verbosity message data (cfg_scope this) (cfg_formatter this) (w_heap w)
             = (Inr logData, h1)"
      and "fmt_formatLogData (cfg_formatter this) h1 (VRef logData) = (Inr t, h2)"
  shows "log this verbosity message data w
           = (Inr (), \<lparr>w_heap = h2,
                        w_stdout = w_stdout w @ [case t of Some s \<Rightarrow> s | None \<Rightarrow> ''undefined''],
                        w_sink = w_sink w\<rparr>)"
  using assms by (simp add: log_def console_log_def)

lemma log_enum_threshold:
  "below_threshold verbosity (LvEnum l) \<longleftrightarrow> level_num verbosity < level_num l"
  by (simp add: below_threshold_def)

text \<open>
  C2. A call at or above the threshold is meant to write one record. \<^verbatim>\<open>Logger.log\<close>
  assembles the record outside any \<^verbatim>\<open>try\<close>: \<^verbatim>\<open>Object.assign\<close> reads the own properties
  of the call-site data, and a getter that throws there ends the call before anything is
  written. A \<^verbatim>\<open>warn\<close> call on a logger with threshold \<^verbatim>\<open>warn\<close> then writes nothing
  and throws. The same getter one level down is survived: the formatter catches the
  exception and the call writes its one line.
\<close>

theorem log_warn_throwing_getter_writes_nothing:
  "\<not> level_num warn < level_num warn
   \<and> cfg_logLevel (sample_logger (LvEnum warn)) = LvEnum warn
   \<and> \<not> below_threshold warn (cfg_logLevel (sample_logger (LvEnum warn)))
   \<and> fst (log_warn (sample_logger (LvEnum warn)) ''m'' (VRef 0)
            (empty_world data_with_throwing_getter)) = Inl UserError
   \<and> w_stdout (snd (log_warn (sample_logger (LvEnum warn)) ''m'' (VRef 0)
            (empty_world data_with_throwing_getter))) = []
   \<and> fst (log_warn (sample_logger (LvEnum warn)) ''m'' (VRef 1)
            (empty_world nested_throwing_getter)) = Inr ()
   \<and> w_stdout (snd (log_warn (sample_logger (LvEnum warn)) ''m'' (VRef 1)
            (empty_world nested_throwing_getter))) = [''[inspect]'']"
  by code_simp

lemma build_data_address:
  assumes "build_data fmt sc data h = (Inr d, h')"
  shows "d = length h"
proof -
  let ?h1 = "h @ [empty_object]"
  obtain r2 h2 where c: "CopyDataProperties ?h1 (length h) sc = (r2, h2)"
    by (cases "CopyDataProperties ?h1 (length h) sc")
  obtain u where r2: "r2 = Inr u"
    using assms c by (cases r2) (simp_all add: build_data_def alloc_def)
  obtain r3 h3 where ds: "data_source fmt h2 data = (r3, h3)" by (cases "data_source fmt h2 data")
  obtain src where r3: "r3 = Inr src"
    using assms c r2 ds by (cases r3) (simp_all add: build_data_def alloc_def)
  obtain r4 h4 where o: "Object_assign h3 (length h) src = (r4, h4)"
    by (cases "Object_assign h3 (length h) src")
  show ?thesis
    using assms c r2 ds r3 o by (cases r4) (simp_all add: build_data_def alloc_def)
qed

text \<open>The record that getLogData returns.\<close>

lemma getLogData_record_fields:
  assumes g: "getLogData this level message data sc fmt h0 = (Inr r, h)"
      and a: "allocates_only fmt"
  shows "r = length h0
         \<and> obj_at h r
             = \<lparr>cls = OrdinaryObject,
                props = record_props (int (level_num level)) message
                          (if truthy (context_of this level message h0)
                           then Some (context_of this level message h0) else None)
                          (if truthy data \<or> truthy sc then Some (VRef (Suc r)) else None)\<rparr>"
proof -
  obtain r0 hn where n: "new_logData this level message h0 = (r0, hn)"
    by (cases "new_logData this level message h0")
  let ?ctx = "if truthy (context_of this level message h0)
              then Some (context_of this level message h0) else None"
  have r0: "r0 = length h0" and ln: "length hn = Suc (length h0)"
    and o: "obj_at hn r0 = \<lparr>cls = OrdinaryObject,
                             props = record_props (int (level_num level)) message ?ctx None\<rparr>"
    using new_logData_props[OF n] by blast+
  show ?thesis
  proof (cases "truthy data \<or> truthy sc")
    case False
    then have "r = r0" and "h = hn" using g n by (simp_all add: getLogData_def)
    then show ?thesis using o r0 False by simp
  next
    case True
    obtain rb hb where b: "build_data fmt sc data hn = (rb, hb)" by (cases "build_data fmt sc data hn")
    obtain d where rb: "rb = Inr d" and rr: "r = r0" and h: "h = heap_set hb r0 ''data'' (VRef d)"
      using g True n b by (cases rb) (auto simp: getLogData_def)
    have d: "d = Suc r" using build_data_address[OF b[unfolded rb]] ln rr r0 by simp
    have e: "extends hn hb"
      using extends_build_data[OF a extends_refl, where sc = sc and data = data and h = hn] b by simp
    have ob: "obj_at hb r0 = obj_at hn r0"
      using extends_obj_at[OF e, of r0] r0 ln by simp
    have lb: "r0 < length hb" using extends_length[OF e] r0 ln by simp
    have "obj_at h r = \<lparr>cls = OrdinaryObject,
                        props = record_props (int (level_num level)) message ?ctx (Some (VRef d))\<rparr>"
      using h rr lb ob o by (simp add: heap_set_def obj_at_update set_prop_record_data)
    then show ?thesis using True rr r0 d by simp
  qed
qed

lemma serialize_optional_member:
  assumes "serialize_members f gap h
             ((case v of None \<Rightarrow> [] | Some x \<Rightarrow> [(k, Data x)]) @ es) = (Inr ms, h')"
  shows "\<exists>t h1 ms'. ms = optional_member gap k t @ ms'
           \<and> (case v of None \<Rightarrow> t = None \<and> h1 = h | Some x \<Rightarrow> f h k x = (Inr t, h1))
           \<and> serialize_members f gap h1 es = (Inr ms', h')"
proof (cases v)
  case None
  then show ?thesis using assms by (auto simp: optional_member_def)
next
  case (Some x)
  obtain r h1 where c: "f h k x = (r, h1)" by (cases "f h k x")
  obtain t where r: "r = Inr t"
    using assms Some c by (cases r) (simp_all add: read_slot_def)
  obtain r2 h2 where m: "serialize_members f gap h1 es = (r2, h2)"
    by (cases "serialize_members f gap h1 es")
  obtain ms' where r2: "r2 = Inr ms'"
    using assms Some c r m by (cases r2) (simp_all add: read_slot_def)
  have "ms = optional_member gap k t @ ms'" and "h2 = h'"
    using assms Some c r m r2
    by (auto simp: read_slot_def optional_member_def member_text_def split: option.splits)
  then show ?thesis using Some c r m r2 by auto
qed

text \<open>
  The text of a record: its context and its data are serialized as the properties
  \<^verbatim>\<open>context\<close> and \<^verbatim>\<open>data\<close> of the record, in this order.
\<close>

lemma serialize_record_members:
  assumes o: "obj_at h r = \<lparr>cls = OrdinaryObject, props = record_props n m ctx dat\<rparr>"
      and j: "JSON_stringify k (jsonReplacer self) space h (VRef r) = (Inr res, h')"
  shows "\<exists>k1 tc td hc.
           k = Suc k1 \<and> res = Some (record_text (gap_of space) n m tc td)
         \<and> (case ctx of
               None \<Rightarrow> tc = None \<and> hc = h
             | Some c \<Rightarrow>
                 SerializeJSONProperty k1 (jsonReplacer self) (gap_of space) [r] (gap_of space)
                   h ''context'' c = (Inr tc, hc))
         \<and> (case dat of
               None \<Rightarrow> td = None \<and> h' = hc
             | Some d \<Rightarrow>
                 SerializeJSONProperty k1 (jsonReplacer self) (gap_of space) [r] (gap_of space)
                   hc ''data'' d = (Inr td, h'))"
proof -
  let ?gap = "gap_of space"
  obtain k1 where k: "k = Suc k1"
    using j by (cases k) (simp_all add: JSON_stringify_def)
  let ?F = "SerializeJSONProperty k1 (jsonReplacer self) ?gap [r] ?gap"
  let ?es = "own_enumerable (props (obj_at h r))"
  have c: "cls (obj_at h r) = OrdinaryObject" using o by simp
  have tj: "map_of (props (obj_at h r)) ''toJSON'' = None" using o by (simp add: record_no_toJSON)
  obtain rm hm where m: "serialize_members ?F ?gap h ?es = (rm, hm)"
    by (cases "serialize_members ?F ?gap h ?es")
  have s: "SerializeJSONProperty (Suc k1) (jsonReplacer self) ?gap [] [] h [] (VRef r)
           = (case (rm, hm) of
                (Inl e, h2) \<Rightarrow> (Inl e, h2)
              | (Inr ms, h2) \<Rightarrow> (Inr (Some (json_wrap ''{'' ''}'' ?gap ([] @ ?gap) ms)), h2))"
    using serialize_plain_object[OF c tj, of "[]" k1 self ?gap "[]" "[]"] m by simp
  obtain ms where rm: "rm = Inr ms"
    using j k s by (cases rm) (simp_all add: JSON_stringify_def)
  have res: "res = Some (json_wrap ''{'' ''}'' ?gap ?gap ms)" and hm: "hm = h'"
    using j k s rm by (simp_all add: JSON_stringify_def)
  let ?rest = "(case ctx of None \<Rightarrow> [] | Some c \<Rightarrow> [(''context'', Data c)])
               @ (case dat of None \<Rightarrow> [] | Some d \<Rightarrow> [(''data'', Data d)]) @ []"
  have es: "?es = (''level'', Data (VNum n)) # (''message'', Data (VStr m)) # ?rest"
    using o by (simp add: own_enumerable_record)
  obtain k2 where k1: "k1 = Suc k2"
    using m rm es by (cases k1) (simp_all add: read_slot_def)
  have fl: "?F h ''level'' (VNum n) = (Inr (Some (show_int n)), h)"
    unfolding k1 by (rule serialize_num)
  have fm: "?F h ''message'' (VStr m) = (Inr (Some (QuoteJSONString m)), h)"
    unfolding k1 by (rule serialize_str)
  obtain rr hr where rest: "serialize_members ?F ?gap h ?rest = (rr, hr)"
    by (cases "serialize_members ?F ?gap h ?rest")
  obtain ms' where rr: "rr = Inr ms'"
    using m rm es fl fm rest by (cases rr) (simp_all add: read_slot_def)
  have ms: "ms = member_text ?gap ''level'' (show_int n)
                 # member_text ?gap ''message'' (QuoteJSONString m) # ms'"
    and hr: "hr = h'"
    using m rm hm es fl fm rest rr by (simp_all add: read_slot_def member_text_def)
  obtain tc hc ms1 where
        1: "ms' = optional_member ?gap ''context'' tc @ ms1"
    and tcv: "(case ctx of None \<Rightarrow> tc = None \<and> hc = h | Some c \<Rightarrow> ?F h ''context'' c = (Inr tc, hc))"
    and r1: "serialize_members ?F ?gap hc
               ((case dat of None \<Rightarrow> [] | Some d \<Rightarrow> [(''data'', Data d)]) @ []) = (Inr ms1, hr)"
    using serialize_optional_member[OF rest[unfolded rr]] by blast
  obtain td hd ms2 where
        2: "ms1 = optional_member ?gap ''data'' td @ ms2"
    and tdv: "(case dat of None \<Rightarrow> td = None \<and> hd = hc | Some d \<Rightarrow> ?F hc ''data'' d = (Inr td, hd))"
    and r2: "serialize_members ?F ?gap hd [] = (Inr ms2, hr)"
    using serialize_optional_member[OF r1] by blast
  have e2: "ms2 = []" and hd: "hd = h'" using r2 hr by simp_all
  have t: "res = Some (record_text ?gap n m tc td)"
    using res ms 1 2 e2 by (simp add: record_text_def optional_member_def)
  have tdv': "(case dat of None \<Rightarrow> td = None \<and> h' = hc | Some d \<Rightarrow> ?F hc ''data'' d = (Inr td, h'))"
    using tdv hd by (cases dat) auto
  show ?thesis using k t tcv tdv' by blast
qed

lemma Get_record_context:
  "obj_at h r = \<lparr>cls = OrdinaryObject, props = record_props n m (Some c) dat\<rparr> \<Longrightarrow>
   Get h r ''context'' = Inr c"
  by (simp add: Get_def record_props_def read_slot_def)

lemma Get_record_data:
  "obj_at h r = \<lparr>cls = OrdinaryObject, props = record_props n m ctx (Some d)\<rparr> \<Longrightarrow>
   Get h r ''data'' = Inr d"
  by (cases ctx) (simp_all add: Get_def record_props_def read_slot_def)

lemma record_format_lemma:
  assumes g: "getLogData this level message data sc fmt h0 = (Inr r, h)"
      and a: "allocates_only fmt"
      and j: "JSON_stringify n (jsonReplacer self)
                (jsonStringifySpace (new_JsonLogFormatter opts)) h (VRef r) = (Inr res, h')"
  shows "\<exists>n1 tc td hc.
           n = Suc n1
         \<and> formatLogData insp (new_JsonLogFormatter opts) n self h (VRef r)
             = (Inr (Some (record_text (gap_of (jsonStringifySpace (new_JsonLogFormatter opts)))
                             (int (level_num level)) message tc td)), h')
         \<and> (if truthy (context_of this level message h0)
            then Get h r ''context'' = Inr (context_of this level message h0)
                 \<and> SerializeJSONProperty n1 (jsonReplacer self)
                       (gap_of (jsonStringifySpace (new_JsonLogFormatter opts))) [r]
                       (gap_of (jsonStringifySpace (new_JsonLogFormatter opts)))
                       h ''context'' (context_of this level message h0) = (Inr tc, hc)
            else tc = None \<and> hc = h)
         \<and> (if truthy data \<or> truthy sc
            then Get h r ''data'' = Inr (VRef (Suc r))
                 \<and> SerializeJSONProperty n1 (jsonReplacer self)
                       (gap_of (jsonStringifySpace (new_JsonLogFormatter opts))) [r]
                       (gap_of (jsonStringifySpace (new_JsonLogFormatter opts)))
                       hc ''data'' (VRef (Suc r)) = (Inr td, h')
            else td = None \<and> h' = hc)
         \<and> (compact (new_JsonLogFormatter opts) \<longrightarrow>
              newline \<notin> set (record_text (gap_of (jsonStringifySpace (new_JsonLogFormatter opts)))
                                (int (level_num level)) message tc td))"
proof -
  let ?fm = "new_JsonLogFormatter opts"
  let ?gap = "gap_of (jsonStringifySpace ?fm)"
  let ?c = "context_of this level message h0"
  let ?ctx = "if truthy ?c then Some ?c else None"
  let ?dat = "if truthy data \<or> truthy sc then Some (VRef (Suc r)) else None"
  have o: "obj_at h r = \<lparr>cls = OrdinaryObject,
                         props = record_props (int (level_num level)) message ?ctx ?dat\<rparr>"
    using getLogData_record_fields[OF g a] by blast
  obtain n1 tc td hc where
        n: "n = Suc n1"
    and res: "res = Some (record_text ?gap (int (level_num level)) message tc td)"
    and tcv: "(case ?ctx of
               None \<Rightarrow> tc = None \<and> hc = h
             | Some c \<Rightarrow>
                 SerializeJSONProperty n1 (jsonReplacer self) ?gap [r] ?gap h ''context'' c = (Inr tc, hc))"
    and tdv: "(case ?dat of
               None \<Rightarrow> td = None \<and> h' = hc
             | Some d \<Rightarrow>
                 SerializeJSONProperty n1 (jsonReplacer self) ?gap [r] ?gap hc ''data'' d = (Inr td, h'))"
    using serialize_record_members[OF o j] by blast
  have ty: "typeof h (VRef r) = TObject"
    using o by (simp add: typeof_def is_function_def)
  have f: "formatLogData insp ?fm n self h (VRef r)
             = (Inr (Some (record_text ?gap (int (level_num level)) message tc td)), h')"
    using j ty res by (simp add: formatLogData_def)
  have c1: "if truthy ?c
            then Get h r ''context'' = Inr ?c
                 \<and> SerializeJSONProperty n1 (jsonReplacer self) ?gap [r] ?gap h ''context'' ?c = (Inr tc, hc)
            else tc = None \<and> hc = h"
  proof (cases "truthy ?c")
    case True
    have "Get h r ''context'' = Inr ?c"
      using o True by (intro Get_record_context[where n = "int (level_num level)" and m = message and dat = ?dat]) simp
    then show ?thesis using True tcv by simp
  next
    case False
    then show ?thesis using tcv by simp
  qed
  have c2: "if truthy data \<or> truthy sc
            then Get h r ''data'' = Inr (VRef (Suc r))
                 \<and> SerializeJSONProperty n1 (jsonReplacer self) ?gap [r] ?gap hc ''data'' (VRef (Suc r)) = (Inr td, h')
            else td = None \<and> h' = hc"
  proof (cases "truthy data \<or> truthy sc")
    case True
    have "Get h r ''data'' = Inr (VRef (Suc r))"
      using o True by (intro Get_record_data[where n = "int (level_num level)" and m = message and ctx = ?ctx]) simp
    then show ?thesis using True tdv by simp
  next
    case False
    then show ?thesis using tdv by simp
  qed
  have c3: "compact ?fm \<longrightarrow> newline \<notin> set (record_text ?gap (int (level_num level)) message tc td)"
  proof
    assume "compact ?fm"
    then have "?gap = []"
      by (simp add: gap_of_new_JsonLogFormatter)
    then have "SerializeJSONProperty n (jsonReplacer self) [] [] [] h [] (VRef r)
               = (Inr (Some (record_text ?gap (int (level_num level)) message tc td)), h')"
      using j res by (simp add: JSON_stringify_def)
    then show "newline \<notin> set (record_text ?gap (int (level_num level)) message tc td)"
      by (rule serialize_compact_single_line)
  qed
  from n f c1 c2 c3 show ?thesis by blast
qed

text \<open>
  C8, as amended. Whenever \<^verbatim>\<open>JSON.stringify\<close> with the formatter's replacer returns for a
  record that getLogData has assembled, \<^verbatim>\<open>formatLogData\<close> returns a JSON object text
  with the members \<^verbatim>\<open>level\<close> (the number of the severity) and \<^verbatim>\<open>message\<close>, then
  \<^verbatim>\<open>context\<close> and then \<^verbatim>\<open>data\<close>. The member \<^verbatim>\<open>context\<close> is there exactly if the
  context accessor returned a truthy value that serializes to a text, and holds that
  text; the member \<^verbatim>\<open>data\<close> is there exactly if the call-site data or the scope is
  truthy and the data object of the record serializes to a text, and holds that text. A
  formatter that is not compact indents by two spaces, one member per line; a compact one
  writes no line break.
\<close>

theorem record_text_members_in_order:
  assumes "getLogData this level message data sc fmt h0 = (Inr r, h)"
      and "allocates_only fmt"
      and "JSON_stringify n (jsonReplacer self)
             (jsonStringifySpace (new_JsonLogFormatter opts)) h (VRef r) = (Inr res, h')"
  shows "(\<exists>n1 tc td hc.
           n = Suc n1
         \<and> formatLogData insp (new_JsonLogFormatter opts) n self h (VRef r)
             = (Inr (Some (record_text (gap_of (jsonStringifySpace (new_JsonLogFormatter opts)))
                             (int (level_num level)) message tc td)), h')
         \<and> (if truthy (context_of this level message h0)
            then Get h r ''context'' = Inr (context_of this level message h0)
                 \<and> SerializeJSONProperty n1 (jsonReplacer self)
                       (gap_of (jsonStringifySpace (new_JsonLogFormatter opts))) [r]
                       (gap_of (jsonStringifySpace (new_JsonLogFormatter opts)))
                       h ''context'' (context_of this level message h0) = (Inr tc, hc)
            else tc = None \<and> hc = h)
         \<and> (if truthy data \<or> truthy sc
            then Get h r ''data'' = Inr (VRef (Suc r))
                 \<and> SerializeJSONProperty n1 (jsonReplacer self)
                       (gap_of (jsonStringifySpace (new_JsonLogFormatter opts))) [r]
                       (gap_of (jsonStringifySpace (new_JsonLogFormatter opts)))
                       hc ''data'' (VRef (Suc r)) = (Inr td, h')
            else td = None \<and> h' = hc)
         \<and> (compact (new_JsonLogFormatter opts) \<longrightarrow>
              newline \<notin> set (record_text (gap_of (jsonStringifySpace (new_JsonLogFormatter opts)))
                                (int (level_num level)) message tc td)))
       \<and> gap_of (jsonStringifySpace (new_JsonLogFormatter opts))
           = (if compact (new_JsonLogFormatter opts) then [] else ''  '')
       \<and> record_text ''  '' l m (Some c) (Some d) =
           ''{'' @ [newline]
           @ ''  '' @ member_text ''  '' ''level'' (show_int l) @ '','' @ [newline]
           @ ''  '' @ member_text ''  '' ''message'' (QuoteJSONString m) @ '','' @ [newline]
           @ ''  '' @ member_text ''  '' ''context'' c @ '','' @ [newline]
           @ ''  '' @ member_text ''  '' ''data'' d @ [newline]
           @ ''}''
       \<and> record_text [] l m (Some c) (Some d) =
           ''{'' @ member_text [] ''level'' (show_int l) @ '',''
           @ member_text [] ''message'' (QuoteJSONString m) @ '',''
           @ member_text [] ''context'' c @ '','' @ member_text [] ''data'' d @ ''}''
       \<and> record_text [] l m None (Some d) =
           ''{'' @ member_text [] ''level'' (show_int l) @ '',''
           @ member_text [] ''message'' (QuoteJSONString m) @ '',''
           @ member_text [] ''data'' d @ ''}''
       \<and> record_text [] l m (Some c) None =
           ''{'' @ member_text [] ''level'' (show_int l) @ '',''
           @ member_text [] ''message'' (QuoteJSONString m) @ '',''
           @ member_text [] ''context'' c @ ''}''
       \<and> record_text [] l m None None =
           ''{'' @ member_text [] ''level'' (show_int l) @ '',''
           @ member_text [] ''message'' (QuoteJSONString m) @ ''}''"
proof -
  note 1 = record_format_lemma[OF assms, where insp = insp]
  have 2: "record_text [] l m None (Some d) =
           ''{'' @ member_text [] ''level'' (show_int l) @ '',''
           @ member_text [] ''message'' (QuoteJSONString m) @ '',''
           @ member_text [] ''data'' d @ ''}''"
    by (simp add: record_text_def json_wrap_def)
  have 3: "record_text [] l m (Some c) None =
           ''{'' @ member_text [] ''level'' (show_int l) @ '',''
           @ member_text [] ''message'' (QuoteJSONString m) @ '',''
           @ member_text [] ''context'' c @ ''}''"
    by (simp add: record_text_def json_wrap_def)
  have 4: "record_text [] l m None None =
           ''{'' @ member_text [] ''level'' (show_int l) @ '',''
           @ member_text [] ''message'' (QuoteJSONString m) @ ''}''"
    by (simp add: record_text_def json_wrap_def)
  from 1 2 3 4 gap_of_new_JsonLogFormatter[of opts] record_text_indented[of l m c d]
    record_text_compact[of l m c d]
  show ?thesis by blast
qed

theorem record_text_members_in_order_witness:
  "fst (getLogData (context_logger True) info ''m'' (VRef 1) VUndefined (sample_formatter True)
          context_example_heap) = Inr 2
   \<and> allocates_only (sample_formatter True)
   \<and> fst (JSON_stringify 3 (jsonReplacer (sample_formatter True))
            (jsonStringifySpace (new_JsonLogFormatter \<lparr>compact_option = Some True\<rparr>))
            (snd (getLogData (context_logger True) info ''m'' (VRef 1) VUndefined (sample_formatter True)
                    context_example_heap)) (VRef 2))
       = Inr (Some (''{'' @ member_text [] ''level'' ''20'' @ '',''
                    @ member_text [] ''message'' (QuoteJSONString ''m'') @ '',''
                    @ member_text [] ''context''
                        (''{'' @ member_text [] ''requestId'' (QuoteJSONString ''X'') @ ''}'')
                    @ '','' @ member_text [] ''data''
                        (''{'' @ member_text [] ''k'' (QuoteJSONString ''v'') @ ''}'')
                    @ ''}''))
   \<and> context_of (context_logger True) info ''m'' context_example_heap = VRef 0
   \<and> truthy (VRef 0) \<and> truthy (VRef 1)
   \<and> fst (formatLogData sample_inspector (new_JsonLogFormatter \<lparr>compact_option = Some True\<rparr>) 3
            (sample_formatter True)
            (snd (getLogData (context_logger True) info ''m'' (VRef 1) VUndefined
                    (sample_formatter True) context_example_heap)) (VRef 2))
       = Inr (Some (record_text [] 20 ''m''
                      (Some (''{'' @ member_text [] ''requestId'' (QuoteJSONString ''X'') @ ''}''))
                      (Some (''{'' @ member_text [] ''k'' (QuoteJSONString ''v'') @ ''}''))))
   \<and> newline \<notin> set (record_text [] 20 ''m''
                      (Some (''{'' @ member_text [] ''requestId'' (QuoteJSONString ''X'') @ ''}''))
                      (Some (''{'' @ member_text [] ''k'' (QuoteJSONString ''v'') @ ''}'')))"
proof -
  let ?G = "getLogData (context_logger True) info ''m'' (VRef 1) VUndefined (sample_formatter True)
              context_example_heap"
  let ?fm = "new_JsonLogFormatter \<lparr>compact_option = Some True\<rparr>"
  let ?rep = "jsonReplacer (sample_formatter True)"
  let ?J = "JSON_stringify 3 ?rep (jsonStringifySpace ?fm) (snd ?G) (VRef 2)"
  let ?tc = "''{'' @ member_text [] ''requestId'' (QuoteJSONString ''X'') @ ''}''"
  let ?td = "''{'' @ member_text [] ''k'' (QuoteJSONString ''v'') @ ''}''"
  let ?t = "''{'' @ member_text [] ''level'' ''20'' @ '',''
                    @ member_text [] ''message'' (QuoteJSONString ''m'') @ '',''
                    @ member_text [] ''context'' ?tc
                    @ '','' @ member_text [] ''data'' ?td
                    @ ''}''"
  let ?C = "SerializeJSONProperty 2 ?rep [] [2] [] (snd ?G) ''context'' (VRef 0)"
  let ?D = "SerializeJSONProperty 2 ?rep [] [2] [] (snd ?C) ''data'' (VRef 3)"
  have fg: "fst ?G = Inr 2" by code_simp
  then have g: "?G = (Inr 2, snd ?G)" by (simp add: prod_eq_iff)
  have a: "allocates_only (sample_formatter True)"
    by (simp add: sample_formatter_def allocates_only_JsonLogFormatter)
  have fj: "fst ?J = Inr (Some ?t)" by code_simp
  then have j: "?J = (Inr (Some ?t), snd ?J)" by (simp add: prod_eq_iff)
  have c: "compact ?fm" by (simp add: new_JsonLogFormatter_def)
  have gp: "gap_of (jsonStringifySpace ?fm) = []" by (simp add: new_JsonLogFormatter_def gap_of_def)
  have l: "int (level_num info) = 20" by simp
  have co: "context_of (context_logger True) info ''m'' context_example_heap = VRef 0"
    by (simp add: context_of_def context_logger_def new_Logger_def)
  have t0: "truthy (VRef 0)" and t1: "truthy (VRef 1)" by (simp_all add: truthy_def)
  have fc: "fst ?C = Inr (Some ?tc)" by code_simp
  have fd: "fst ?D = Inr (Some ?td)" by code_simp
  from record_text_members_in_order[OF g a j, where insp = sample_inspector]
  obtain n1 tc td hc where
        n: "(3::nat) = Suc n1"
    and f: "formatLogData sample_inspector ?fm 3 (sample_formatter True) (snd ?G) (VRef 2)
         = (Inr (Some (record_text (gap_of (jsonStringifySpace ?fm)) (int (level_num info)) ''m'' tc td)),
            snd ?J)"
    and cv: "if truthy (context_of (context_logger True) info ''m'' context_example_heap)
            then Get (snd ?G) 2 ''context'' = Inr (context_of (context_logger True) info ''m'' context_example_heap)
                 \<and> SerializeJSONProperty n1 ?rep (gap_of (jsonStringifySpace ?fm)) [2]
                       (gap_of (jsonStringifySpace ?fm))
                       (snd ?G) ''context'' (context_of (context_logger True) info ''m'' context_example_heap)
                     = (Inr tc, hc)
            else tc = None \<and> hc = snd ?G"
    and dv: "if truthy (VRef 1) \<or> truthy VUndefined
            then Get (snd ?G) 2 ''data'' = Inr (VRef (Suc 2))
                 \<and> SerializeJSONProperty n1 ?rep (gap_of (jsonStringifySpace ?fm)) [2]
                       (gap_of (jsonStringifySpace ?fm))
                       hc ''data'' (VRef (Suc 2)) = (Inr td, snd ?J)
            else td = None \<and> snd ?J = hc"
    and nl: "compact ?fm \<longrightarrow>
         newline \<notin> set (record_text (gap_of (jsonStringifySpace ?fm)) (int (level_num info)) ''m'' tc td)"
    by blast
  have n1: "n1 = 2" using n by simp
  have s3: "Suc 2 = (3::nat)" by simp
  have cc: "?C = (Inr tc, hc)" using cv t0 unfolding co gp n1 by simp
  then have tc: "tc = Some ?tc" and hc: "hc = snd ?C" using fc by simp_all
  have "?D = (Inr td, snd ?J)" using dv t1 unfolding gp n1 hc s3 by simp
  then have td: "td = Some ?td" using fd by simp
  have "fst (formatLogData sample_inspector ?fm 3 (sample_formatter True) (snd ?G) (VRef 2))
          = Inr (Some (record_text [] 20 ''m'' (Some ?tc) (Some ?td)))"
    using f unfolding gp l tc td by simp
  moreover have "newline \<notin> set (record_text [] 20 ''m'' (Some ?tc) (Some ?td))"
    using nl c unfolding gp l tc td by simp
  ultimately show ?thesis using fg a fj co t0 t1 by blast
qed

lemma data_member_dropped_example:
  "w_stdout (snd (log_info (sample_logger LvUndefined) ''m'' (VRef 1) (empty_world symbol_toJSON_heap)))
   = [''{'' @ member_text [] ''level'' ''20'' @ '',''
      @ member_text [] ''message'' (QuoteJSONString ''m'') @ ''}'']"
  by code_simp

lemma shift_addr_inj [simp]: "shift_addr k n a = shift_addr k n b \<longleftrightarrow> a = b"
  by (auto simp: shift_addr_def)

lemma shift_value_simps [simp]:
  "shift_value k n VUndefined = VUndefined"
  "shift_value k n VNull = VNull"
  "shift_value k n (VBool b) = VBool b"
  "shift_value k n (VNum i) = VNum i"
  "shift_value k n (VStr s) = VStr s"
  "shift_value k n (VBigInt i) = VBigInt i"
  "shift_value k n (VSymbol d) = VSymbol d"
  "shift_value k n (VRef a) = VRef (shift_addr k n a)"
  by (simp_all add: shift_value_def)

lemma shift_slot_simps [simp]:
  "shift_slot k n (Data v) = Data (shift_value k n v)"
  "shift_slot k n (Getter r) = Getter (shift_call k n r)"
  by (simp_all add: shift_slot_def)

lemma shift_call_simps [simp]:
  "shift_call k n (Returns v) = Returns (shift_value k n v)"
  "shift_call k n Throws = Throws"
  by (simp_all add: shift_call_def)

lemma shift_props_simps [simp]:
  "shift_props k n [] = []"
  "shift_props k n ((key, vis, s) # ps) = (key, vis, shift_slot k n s) # shift_props k n ps"
  "shift_props k n (ps @ qs) = shift_props k n ps @ shift_props k n qs"
  by (simp_all add: shift_props_def)

lemma shift_entries_simps [simp]:
  "shift_entries k n [] = []"
  "shift_entries k n ((key, s) # es) = (key, shift_slot k n s) # shift_entries k n es"
  "shift_entries k n (es @ fs) = shift_entries k n es @ shift_entries k n fs"
  by (simp_all add: shift_entries_def)

lemma shift_object_simps [simp]:
  "cls (shift_object k n ob) = shift_class k n (cls ob)"
  "props (shift_object k n ob) = shift_props k n (props ob)"
  "shift_object k n (ob\<lparr>props := ps\<rparr>) = (shift_object k n ob)\<lparr>props := shift_props k n ps\<rparr>"
  "shift_object k n \<lparr>cls = c, props = ps\<rparr> = \<lparr>cls = shift_class k n c, props = shift_props k n ps\<rparr>"
  by (simp_all add: shift_object_def)

lemma shift_class_simps [simp]:
  "shift_class k n OrdinaryObject = OrdinaryObject"
  "shift_class k n ArrayObject = ArrayObject"
  "shift_class k n ErrorObject = ErrorObject"
  "shift_class k n (RegExpObject src flags) = RegExpObject src flags"
  "shift_class k n PromiseObject = PromiseObject"
  "shift_class k n (FunctionObject src r) = FunctionObject src (shift_call k n r)"
  by (simp_all add: shift_class_def)

lemma shift_object_empty [simp]: "shift_object k n empty_object = empty_object"
  by (simp add: shift_object_def empty_object_def)

lemma length_relocate [simp]: "length (relocate k j h) = length h + length j"
  by (simp add: relocate_def)

lemma obj_at_relocate:
  assumes "k \<le> length h"
  shows "obj_at (relocate k j h) (shift_addr k (length j) a) = shift_object k (length j) (obj_at h a)"
proof -
  let ?f = "shift_object k (length j)"
  consider (old) "a < k" | (new) "k \<le> a" "a < length h" | (out) "length h \<le> a" by linarith
  then show ?thesis
  proof cases
    case old
    then have "relocate k j h ! a = ?f (h ! a)"
      using assms by (simp add: relocate_def nth_append)
    then show ?thesis using old assms by (simp add: obj_at_def shift_addr_def)
  next
    case new
    have "relocate k j h ! (a + length j) = (map ?f (drop k h)) ! (a - k)"
      using new assms by (simp add: relocate_def nth_append)
    also have "\<dots> = ?f (h ! a)" using new by simp
    finally show ?thesis using new by (simp add: obj_at_def shift_addr_def)
  next
    case out
    then show ?thesis using assms by (simp add: obj_at_def shift_addr_def)
  qed
qed

lemma relocate_append:
  "k \<le> length h \<Longrightarrow> relocate k j (h @ xs) = relocate k j h @ map (shift_object k (length j)) xs"
  by (simp add: relocate_def)

lemma relocate_update:
  assumes "k \<le> length h"
  shows "relocate k j (h[a := ob])
         = (relocate k j h)[shift_addr k (length j) a := shift_object k (length j) ob]"
proof (cases "a < k")
  case True
  have "take k (h[a := ob]) = (take k h)[a := ob]" by (simp add: take_update_swap)
  moreover have "drop k (h[a := ob]) = drop k h" using True by simp
  ultimately show ?thesis
    using True assms by (simp add: relocate_def shift_addr_def map_update list_update_append)
next
  case False
  have t: "take k (h[a := ob]) = take k h" using False by simp
  have d: "drop k (h[a := ob]) = (drop k h)[a - k := ob]" using False by (simp add: drop_update_swap)
  have 1: "a + length j - k - length j = a - k" by simp
  have 2: "\<not> a + length j - k < length j" using False by arith
  have 3: "\<not> a + length j < k" using False by arith
  show ?thesis
    using False assms 1 2 3
    by (simp add: relocate_def shift_addr_def t d map_update list_update_append)
qed

lemma alloc_relocate:
  "k \<le> length h \<Longrightarrow>
   alloc (relocate k j h) (shift_object k (length j) ob)
     = (shift_addr k (length j) (length h), relocate k j (h @ [ob]))"
  by (simp add: alloc_def relocate_append shift_addr_def)

lemma map_of_shift_props:
  "map_of (shift_props k n ps) key = map_option (\<lambda>(vis, s). (vis, shift_slot k n s)) (map_of ps key)"
  by (induction ps) auto

lemma map_of_shift_entries:
  "map_of (shift_entries k n es) key = map_option (shift_slot k n) (map_of es key)"
  by (induction es) auto

lemma read_slot_shift:
  "read_slot (shift_slot k n s) = map_sum id (shift_value k n) (read_slot s)"
  by (cases s) (auto simp: read_slot_def shift_call_def split: call_result.splits)

lemma Get_relocate:
  "k \<le> length h \<Longrightarrow>
   Get (relocate k j h) (shift_addr k (length j) a) key
     = map_sum id (shift_value k (length j)) (Get h a key)"
  by (cases "map_of (props (obj_at h a)) key")
     (auto simp: Get_def obj_at_relocate map_of_shift_props read_slot_shift)

lemma has_property_relocate:
  "k \<le> length h \<Longrightarrow>
   has_property (relocate k j h) (shift_addr k (length j) a) key = has_property h a key"
  by (simp add: has_property_def obj_at_relocate map_of_shift_props)

lemma insort_key_map_fst:
  assumes "\<And>e. f (g e) = f e"
  shows "insort_key f (g x) (map g ys) = map g (insort_key f x ys)"
  using assms by (induction ys) auto

lemma sort_key_map_fst:
  assumes "\<And>e. f (g e) = f e"
  shows "sort_key f (map g xs) = map g (sort_key f xs)"
proof (induction xs)
  case Nil
  then show ?case by simp
next
  case (Cons x xs)
  then show ?case using insort_key_map_fst[of f g, OF assms] by simp
qed

lemma key_order_map:
  fixes g :: "string \<times> 'a \<Rightarrow> string \<times> 'a"
  assumes "\<And>e. fst (g e) = fst e"
  shows "key_order (map g es) = map g (key_order es)"
proof -
  have f: "filter P (map g es) = map g (filter (\<lambda>e. P (g e)) es)" for P
    by (simp add: filter_map comp_def)
  show ?thesis
    unfolding key_order_def f
    by (simp add: assms sort_key_map_fst[of "\<lambda>e. the (decimal_value (fst e))" g, OF arg_cong[OF assms]])
qed

lemma own_enumerable_shift:
  "own_enumerable (shift_props k n ps) = shift_entries k n (own_enumerable ps)"
proof -
  let ?g = "\<lambda>(key, s). (key, shift_slot k n s)"
  have 1: "map (\<lambda>(k, vis, s). (k, s)) (filter (\<lambda>(k, vis, s). vis = OwnEnumerable) (shift_props k n ps))
           = map ?g (map (\<lambda>(k, vis, s). (k, s)) (filter (\<lambda>(k, vis, s). vis = OwnEnumerable) ps))"
    by (induction ps) auto
  have 2: "fst (?g e) = fst e" for e :: "string \<times> slot" by (cases e) simp
  show ?thesis
    unfolding own_enumerable_def 1 shift_entries_def
    by (rule key_order_map) (rule 2)
qed

lemma for_in_keys_shift: "for_in_keys (shift_props k n ps) = for_in_keys ps"
proof -
  have 1: "map fst (shift_entries k n es) = map fst es" for es by (induction es) auto
  have 2: "map fst (filter (\<lambda>(k, vis, s). vis = InheritedEnumerable) (shift_props k n ps))
           = map fst (filter (\<lambda>(k, vis, s). vis = InheritedEnumerable) ps)"
    by (induction ps) auto
  show ?thesis by (simp add: for_in_keys_def own_enumerable_shift 1 2)
qed

lemma string_entries_shift: "shift_entries k n (string_entries s) = string_entries s"
  by (simp add: string_entries_def shift_entries_def)

lemma source_entries_relocate:
  "k \<le> length h \<Longrightarrow>
   source_entries (relocate k j h) (shift_value k (length j) v)
     = shift_entries k (length j) (source_entries h v)"
  by (cases v)
     (simp_all add: source_entries_def obj_at_relocate own_enumerable_shift string_entries_shift)

lemma truthy_shift [simp]: "truthy (shift_value k n v) = truthy v"
  by (cases v) (simp_all add: truthy_def)

lemma cls_relocate:
  "k \<le> length h \<Longrightarrow>
   cls (obj_at (relocate k j h) (shift_addr k (length j) a)) = shift_class k (length j) (cls (obj_at h a))"
  by (simp add: obj_at_relocate)

lemma shift_class_eq [simp]:
  "shift_class k n c = ErrorObject \<longleftrightarrow> c = ErrorObject"
  "shift_class k n c = ArrayObject \<longleftrightarrow> c = ArrayObject"
  "shift_class k n c = PromiseObject \<longleftrightarrow> c = PromiseObject"
  "shift_class k n c = OrdinaryObject \<longleftrightarrow> c = OrdinaryObject"
  by (cases c; simp)+

lemma is_function_relocate:
  "k \<le> length h \<Longrightarrow>
   is_function (relocate k j h) (shift_addr k (length j) a) = is_function h a"
  by (cases "cls (obj_at h a)") (simp_all add: is_function_def cls_relocate)

lemma typeof_relocate:
  "k \<le> length h \<Longrightarrow> typeof (relocate k j h) (shift_value k (length j) v) = typeof h v"
  by (cases v) (simp_all add: typeof_def is_function_relocate)

lemma instanceof_Error_relocate:
  "k \<le> length h \<Longrightarrow>
   instanceof_Error (relocate k j h) (shift_value k (length j) v) = instanceof_Error h v"
  by (cases v) (simp_all add: instanceof_Error_def cls_relocate)

lemma instanceof_Promise_relocate:
  "k \<le> length h \<Longrightarrow>
   instanceof_Promise (relocate k j h) (shift_value k (length j) v) = instanceof_Promise h v"
  by (cases v) (simp_all add: instanceof_Promise_def cls_relocate)

lemma instanceof_RegExp_relocate:
  assumes "k \<le> length h"
  shows "instanceof_RegExp (relocate k j h) (shift_value k (length j) v) = instanceof_RegExp h v"
proof (cases v)
  case (VRef a)
  then show ?thesis
    using assms by (cases "cls (obj_at h a)") (simp_all add: instanceof_RegExp_def cls_relocate)
qed (simp_all add: instanceof_RegExp_def)

lemma regexp_text_relocate:
  assumes "k \<le> length h"
  shows "regexp_text (relocate k j h) (shift_value k (length j) v) = regexp_text h v"
proof (cases v)
  case (VRef a)
  then show ?thesis
    using assms by (cases "cls (obj_at h a)") (simp_all add: regexp_text_def cls_relocate)
qed (simp_all add: regexp_text_def)

lemma isArray_relocate:
  "k \<le> length h \<Longrightarrow> isArray (relocate k j h) (shift_value k (length j) v) = isArray h v"
  by (cases v) (simp_all add: isArray_def cls_relocate)

lemma isObject_relocate:
  "k \<le> length h \<Longrightarrow> isObject (relocate k j h) (shift_value k (length j) v) = isObject h v"
  by (simp add: isObject_def typeof_relocate isArray_relocate)

lemma template_literal_relocate:
  assumes "k \<le> length h"
  shows "template_literal (relocate k j h) (shift_value k (length j) v) = template_literal h v"
proof (cases v)
  case (VRef a)
  then show ?thesis
    using assms by (cases "cls (obj_at h a)") (simp_all add: template_literal_def cls_relocate)
qed (simp_all add: template_literal_def)

lemma callable_relocate:
  assumes "k \<le> length h"
  shows "callable (relocate k j h) (shift_value k (length j) v)
           = map_option (shift_call k (length j)) (callable h v)"
proof (cases v)
  case (VRef a)
  then show ?thesis
    using assms by (cases "cls (obj_at h a)") (simp_all add: callable_def cls_relocate)
qed (simp_all add: callable_def)

lemma call_shift: "call (shift_call k n r) = map_sum id (shift_value k n) (call r)"
  by (cases r) (simp_all add: call_def)

lemma apply_toJSON_relocate:
  assumes "k \<le> length h"
  shows "apply_toJSON (relocate k j h) (shift_value k (length j) v)
         = map_sum id (shift_value k (length j)) (apply_toJSON h v)"
proof (cases v)
  case (VRef a)
  show ?thesis
  proof (cases "Get h a ''toJSON''")
    case (Inl e)
    then show ?thesis using VRef assms by (simp add: apply_toJSON_def Get_relocate)
  next
    case (Inr t)
    then show ?thesis
      using VRef assms
      by (cases "callable h t")
         (simp_all add: apply_toJSON_def Get_relocate callable_relocate call_shift)
  qed
qed (simp_all add: apply_toJSON_def)

lemma array_length_relocate:
  assumes "k \<le> length h"
  shows "array_length (relocate k j h) (shift_addr k (length j) a) = array_length h a"
proof (cases "map_of (props (obj_at h a)) ''length''")
  case None
  then show ?thesis using assms by (simp add: array_length_def obj_at_relocate map_of_shift_props)
next
  case (Some p)
  obtain vis s where p: "p = (vis, s)" by (cases p)
  show ?thesis
  proof (cases s)
    case (Data v)
    then show ?thesis
      using Some p assms
      by (cases v) (simp_all add: array_length_def obj_at_relocate map_of_shift_props)
  next
    case (Getter r)
    then show ?thesis
      using Some p assms by (simp add: array_length_def obj_at_relocate map_of_shift_props)
  qed
qed

lemma set_prop_shift:
  "set_prop (shift_props k n ps) key (shift_value k n v) = shift_props k n (set_prop ps key v)"
  by (induction ps) auto

lemma own_part_shift: "own_part (shift_props k n ps) = shift_props k n (own_part ps)"
  by (induction ps) (auto simp: own_part_def)

lemma inherited_part_shift:
  "inherited_part (shift_props k n ps) = shift_props k n (inherited_part ps)"
  by (induction ps) (auto simp: inherited_part_def)

lemma as_inherited_shift: "as_inherited (shift_props k n ps) = shift_props k n (as_inherited ps)"
  by (induction ps) (auto simp: as_inherited_def)

lemma copy_entries_shift:
  "copy_entries (shift_entries k n es) (shift_props k n t)
     = map_sum id (shift_props k n) (copy_entries es t)"
proof (induction es arbitrary: t)
  case Nil
  then show ?case by simp
next
  case (Cons e es)
  obtain key s where e: "e = (key, s)" by (cases e)
  show ?case
  proof (cases "read_slot s")
    case (Inl x)
    then show ?thesis using e by (simp add: read_slot_shift)
  next
    case (Inr v)
    then show ?thesis
      using e Cons.IH[of "set_prop t key v"] by (simp add: read_slot_shift set_prop_shift)
  qed
qed

lemma OrdinarySet_relocate:
  assumes "k \<le> length h"
  shows "OrdinarySet (relocate k j h) (shift_addr k (length j) target)
           (shift_props k (length j) t) key (shift_value k (length j) v)
         = map_sum id (shift_props k (length j)) (OrdinarySet h target t key v)"
proof -
  let ?n = "length j"
  let ?m = "map_of (own_part t @ inherited_part t) key"
  have m: "map_of (own_part (shift_props k ?n t) @ inherited_part (shift_props k ?n t)) key
           = map_option (\<lambda>(vis, s). (vis, shift_slot k ?n s)) ?m"
    unfolding own_part_shift inherited_part_shift shift_props_simps(3)[symmetric]
    by (rule map_of_shift_props)
  have sp: "set_prop (own_part (shift_props k ?n t)) key (shift_value k ?n v)
              @ inherited_part (shift_props k ?n t)
            = shift_props k ?n (set_prop (own_part t) key v @ inherited_part t)"
    by (simp add: own_part_shift inherited_part_shift set_prop_shift)
  show ?thesis
  proof (cases ?m)
    case None
    have l: "OrdinarySet (relocate k j h) (shift_addr k ?n target) (shift_props k ?n t) key
               (shift_value k ?n v)
             = (if key = ''__proto__'' then
                  (case shift_value k ?n v of
                     VRef p \<Rightarrow>
                       if p = shift_addr k ?n target then Inl TypeError
                       else Inr (own_part (shift_props k ?n t)
                                 @ as_inherited (props (obj_at (relocate k j h) p)))
                   | VNull \<Rightarrow> Inr (own_part (shift_props k ?n t))
                   | _ \<Rightarrow> Inr (shift_props k ?n t))
                else Inr (set_prop (own_part (shift_props k ?n t)) key (shift_value k ?n v)
                          @ inherited_part (shift_props k ?n t)))"
      unfolding OrdinarySet_def m None by simp
    have r: "OrdinarySet h target t key v
             = (if key = ''__proto__'' then
                  (case v of
                     VRef p \<Rightarrow>
                       if p = target then Inl TypeError
                       else Inr (own_part t @ as_inherited (props (obj_at h p)))
                   | VNull \<Rightarrow> Inr (own_part t)
                   | _ \<Rightarrow> Inr t)
                else Inr (set_prop (own_part t) key v @ inherited_part t))"
      unfolding OrdinarySet_def None by simp
    show ?thesis
      unfolding l r sp using assms
      by (cases v) (simp_all add: own_part_shift as_inherited_shift obj_at_relocate)
  next
    case (Some p)
    obtain vis s where p: "p = (vis, s)" by (cases p)
    have l: "OrdinarySet (relocate k j h) (shift_addr k ?n target) (shift_props k ?n t) key
               (shift_value k ?n v)
             = (case shift_slot k ?n s of
                  Getter g \<Rightarrow> Inl TypeError
                | Data x \<Rightarrow> Inr (set_prop (own_part (shift_props k ?n t)) key (shift_value k ?n v)
                                  @ inherited_part (shift_props k ?n t)))"
      unfolding OrdinarySet_def m Some p by simp
    have r: "OrdinarySet h target t key v
             = (case s of
                  Getter g \<Rightarrow> Inl TypeError
                | Data x \<Rightarrow> Inr (set_prop (own_part t) key v @ inherited_part t))"
      unfolding OrdinarySet_def Some p by simp
    show ?thesis unfolding l r sp by (cases s) simp_all
  qed
qed

lemma assign_entries_relocate:
  assumes "k \<le> length h"
  shows "assign_entries (relocate k j h) (shift_addr k (length j) target)
           (shift_entries k (length j) es) (shift_props k (length j) t)
         = map_sum id (shift_props k (length j)) (assign_entries h target es t)"
proof (induction es arbitrary: t)
  case Nil
  then show ?case by simp
next
  case (Cons e es)
  obtain key s where e: "e = (key, s)" by (cases e)
  show ?case
  proof (cases "read_slot s")
    case (Inl x)
    then show ?thesis using e by (simp add: read_slot_shift)
  next
    case (Inr v)
    show ?thesis
    proof (cases "OrdinarySet h target t key v")
      case (Inl x)
      then show ?thesis
        using e Inr OrdinarySet_relocate[OF assms, of j target t key v]
        by (simp add: read_slot_shift)
    next
      case r: (Inr t')
      then show ?thesis
        using e Inr OrdinarySet_relocate[OF assms, of j target t key v] Cons.IH[of t']
        by (simp add: read_slot_shift)
    qed
  qed
qed

lemma heap_set_relocate:
  "k \<le> length h \<Longrightarrow>
   heap_set (relocate k j h) (shift_addr k (length j) a) key (shift_value k (length j) v)
     = relocate k j (heap_set h a key v)"
  by (simp add: heap_set_def relocate_update obj_at_relocate set_prop_shift)

lemma CopyDataProperties_relocate:
  assumes "k \<le> length h"
  shows "CopyDataProperties (relocate k j h) (shift_addr k (length j) target)
           (shift_value k (length j) source)
         = map_prod id (relocate k j) (CopyDataProperties h target source)"
  using assms copy_entries_shift[of k "length j" "source_entries h source" "props (obj_at h target)"]
  by (cases "copy_entries (source_entries h source) (props (obj_at h target))")
     (simp_all add: CopyDataProperties_def source_entries_relocate obj_at_relocate relocate_update)

lemma Object_assign_relocate:
  assumes "k \<le> length h"
  shows "Object_assign (relocate k j h) (shift_addr k (length j) target)
           (shift_value k (length j) source)
         = map_prod id (relocate k j) (Object_assign h target source)"
  using assms
    assign_entries_relocate[OF assms, of j target "source_entries h source" "props (obj_at h target)"]
  by (cases "assign_entries h target (source_entries h source) (props (obj_at h target))")
     (simp_all add: Object_assign_def source_entries_relocate obj_at_relocate relocate_update)

lemma assign_property_relocate:
  assumes "k \<le> length h"
  shows "assign_property (relocate k j h) (shift_addr k (length j) a) key
           (shift_value k (length j) v)
         = map_prod id (relocate k j) (assign_property h a key v)"
  using assms OrdinarySet_relocate[OF assms, of j a "props (obj_at h a)" key v]
  by (cases "OrdinarySet h a (props (obj_at h a)) key v")
     (simp_all add: assign_property_def obj_at_relocate relocate_update)

lemma length_CopyDataProperties [simp]:
  "length (snd (CopyDataProperties h t s)) = length h"
  by (simp add: CopyDataProperties_def split: sum.splits)

lemma length_Object_assign [simp]: "length (snd (Object_assign h t s)) = length h"
  by (simp add: Object_assign_def split: sum.splits)

lemma length_assign_property [simp]: "length (snd (assign_property h a key v)) = length h"
  by (simp add: assign_property_def split: sum.splits)

lemma shift_addr_mem: "shift_addr k n a \<in> set (map (shift_addr k n) stack) \<longleftrightarrow> a \<in> set stack"
  by auto

lemma isArray_relocate_ref:
  "k \<le> length h \<Longrightarrow>
   isArray (relocate k j h) (VRef (shift_addr k (length j) a)) = isArray h (VRef a)"
  using isArray_relocate[of k h j "VRef a"] by simp

lemma only_allocates_length:
  assumes "only_allocates f" and "f h key v = (r, h')"
  shows "length h \<le> length h'"
proof -
  have "extends h (snd (f h key v))" using assms(1) by (simp add: only_allocates_def)
  then show ?thesis using assms(2) by (simp add: extends_def)
qed

lemma serialize_members_relocate:
  assumes f: "\<And>h key v. k \<le> length h \<Longrightarrow>
                f' (relocate k j h) key (shift_value k (length j) v)
                  = map_prod id (relocate k j) (f h key v)"
      and m: "only_allocates f"
  shows "k \<le> length h \<Longrightarrow>
         serialize_members f' gap (relocate k j h) (shift_entries k (length j) es)
           = map_prod id (relocate k j) (serialize_members f gap h es)"
proof (induction es arbitrary: h)
  case Nil
  then show ?case by simp
next
  case (Cons e es)
  obtain key s where e: "e = (key, s)" by (cases e)
  show ?case
  proof (cases "read_slot s")
    case (Inl x)
    then show ?thesis using e by (simp add: read_slot_shift)
  next
    case (Inr v)
    obtain r h1 where c: "f h key v = (r, h1)" by (cases "f h key v")
    have l: "k \<le> length h1" using only_allocates_length[OF m c] Cons.prems by simp
    have c': "f' (relocate k j h) key (shift_value k (length j) v) = (r, relocate k j h1)"
      using f[OF Cons.prems, of key v] c by simp
    show ?thesis
    proof (cases r)
      case (Inl x)
      then show ?thesis using e Inr c c' by (simp add: read_slot_shift)
    next
      case strP: (Inr strP)
      obtain r2 h2 where m2: "serialize_members f gap h1 es = (r2, h2)"
        by (cases "serialize_members f gap h1 es")
      have m2': "serialize_members f' gap (relocate k j h1) (shift_entries k (length j) es)
                 = (r2, relocate k j h2)"
        using Cons.IH[OF l] m2 by simp
      show ?thesis
        using e Inr c c' strP m2 m2' by (cases r2) (simp_all add: read_slot_shift)
    qed
  qed
qed

lemma serialize_elements_relocate:
  assumes f: "\<And>h key v. k \<le> length h \<Longrightarrow>
                f' (relocate k j h) key (shift_value k (length j) v)
                  = map_prod id (relocate k j) (f h key v)"
      and m: "only_allocates f"
  shows "k \<le> length h \<Longrightarrow>
         serialize_elements f' (relocate k j h) (shift_addr k (length j) a) is
           = map_prod id (relocate k j) (serialize_elements f h a is)"
proof (induction "is" arbitrary: h)
  case Nil
  then show ?case by simp
next
  case (Cons i "is")
  show ?case
  proof (cases "Get h a (show_nat i)")
    case (Inl x)
    then show ?thesis using Cons.prems by (simp add: Get_relocate)
  next
    case (Inr v)
    obtain r h1 where c: "f h (show_nat i) v = (r, h1)" by (cases "f h (show_nat i) v")
    have l: "k \<le> length h1" using only_allocates_length[OF m c] Cons.prems by simp
    have c': "f' (relocate k j h) (show_nat i) (shift_value k (length j) v) = (r, relocate k j h1)"
      using f[OF Cons.prems, of "show_nat i" v] c by simp
    show ?thesis
    proof (cases r)
      case (Inl x)
      then show ?thesis using Inr c c' Cons.prems by (simp add: Get_relocate)
    next
      case strP: (Inr strP)
      obtain r2 h2 where m2: "serialize_elements f h1 a is = (r2, h2)"
        by (cases "serialize_elements f h1 a is")
      have m2': "serialize_elements f' (relocate k j h1) (shift_addr k (length j) a) is
                 = (r2, relocate k j h2)"
        using Cons.IH[OF l] m2 by simp
      show ?thesis
        using Inr c c' strP m2 m2' Cons.prems by (cases r2) (simp_all add: Get_relocate)
    qed
  qed
qed

lemma SerializeJSONProperty_relocate:
  assumes rep: "\<And>h key v. k \<le> length h \<Longrightarrow>
                  rep (relocate k j h) key (shift_value k (length j) v)
                    = map_prod (map_sum id (shift_value k (length j))) (relocate k j) (rep h key v)"
      and ra: "only_allocates rep"
  shows "k \<le> length h \<Longrightarrow>
         SerializeJSONProperty n rep gap (map (shift_addr k (length j)) stack) indent
           (relocate k j h) key (shift_value k (length j) v)
         = map_prod id (relocate k j) (SerializeJSONProperty n rep gap stack indent h key v)"
proof (induction n arbitrary: stack indent h key v)
  case 0
  then show ?case by simp
next
  case (Suc n)
  let ?s = "shift_value k (length j)"
  show ?case
  proof (cases "apply_toJSON h v")
    case (Inl x)
    then show ?thesis using apply_toJSON_relocate[OF Suc.prems, of j v] by simp
  next
    case v1: (Inr v1)
    have t': "apply_toJSON (relocate k j h) (?s v) = Inr (?s v1)"
      using apply_toJSON_relocate[OF Suc.prems, of j v] v1 by simp
    obtain r h1 where c: "rep h key v1 = (r, h1)" by (cases "rep h key v1")
    have l: "k \<le> length h1" using only_allocates_length[OF ra c] Suc.prems by simp
    have c': "rep (relocate k j h) key (?s v1) = (map_sum id ?s r, relocate k j h1)"
      using rep[OF Suc.prems, of key v1] c by simp
    show ?thesis
    proof (cases r)
      case (Inl x)
      then show ?thesis using v1 t' c c' by simp
    next
      case v2: (Inr v2)
      show ?thesis
      proof (cases v2)
        case (VRef a)
        let ?F = "SerializeJSONProperty n rep gap (a # stack) (indent @ gap)"
        let ?F' = "SerializeJSONProperty n rep gap (map (shift_addr k (length j)) (a # stack))
                     (indent @ gap)"
        have F: "\<And>h key v. k \<le> length h \<Longrightarrow>
                   ?F' (relocate k j h) key (?s v) = map_prod id (relocate k j) (?F h key v)"
          using Suc.IH by blast
        have Fa: "only_allocates ?F" using ra by (rule only_allocates_SerializeJSONProperty)
        have fn: "is_function (relocate k j h1) (shift_addr k (length j) a) = is_function h1 a"
          using l by (rule is_function_relocate)
        have ia: "isArray (relocate k j h1) (VRef (shift_addr k (length j) a)) = isArray h1 (VRef a)"
          using l by (rule isArray_relocate_ref)
        have al: "array_length (relocate k j h1) (shift_addr k (length j) a) = array_length h1 a"
          using l by (rule array_length_relocate)
        have oe: "own_enumerable (props (obj_at (relocate k j h1) (shift_addr k (length j) a)))
                  = shift_entries k (length j) (own_enumerable (props (obj_at h1 a)))"
          using l by (simp add: obj_at_relocate own_enumerable_shift)
        have st: "shift_addr k (length j) a \<in> shift_addr k (length j) ` set stack \<longleftrightarrow> a \<in> set stack"
          by auto
        obtain re he where se: "serialize_elements ?F h1 a [0 ..< array_length h1 a] = (re, he)"
          by (cases "serialize_elements ?F h1 a [0 ..< array_length h1 a]")
        have se': "serialize_elements ?F' (relocate k j h1) (shift_addr k (length j) a)
                     [0 ..< array_length h1 a] = (re, relocate k j he)"
          using serialize_elements_relocate[of k ?F' j ?F, OF F Fa l, of a "[0 ..< array_length h1 a]"] se
          by simp
        obtain rm hm where sm: "serialize_members ?F gap h1 (own_enumerable (props (obj_at h1 a))) = (rm, hm)"
          by (cases "serialize_members ?F gap h1 (own_enumerable (props (obj_at h1 a)))")
        have sm': "serialize_members ?F' gap (relocate k j h1)
                     (shift_entries k (length j) (own_enumerable (props (obj_at h1 a))))
                   = (rm, relocate k j hm)"
          using serialize_members_relocate[of k ?F' j ?F, OF F Fa l, of gap
              "own_enumerable (props (obj_at h1 a))"] sm
          by simp
        have L: "SerializeJSONProperty (Suc n) rep gap (map (shift_addr k (length j)) stack) indent
                   (relocate k j h) key (?s v)
                 = (if is_function h1 a then (Inr None, relocate k j h1)
                    else if a \<in> set stack then (Inl TypeError, relocate k j h1)
                    else if isArray h1 (VRef a) then
                      (case (re, relocate k j he) of
                         (Inl e, h2) \<Rightarrow> (Inl e, h2)
                       | (Inr ms, h2) \<Rightarrow> (Inr (Some (json_wrap ''['' '']'' gap (indent @ gap) ms)), h2))
                    else
                      (case (rm, relocate k j hm) of
                         (Inl e, h2) \<Rightarrow> (Inl e, h2)
                       | (Inr ms, h2) \<Rightarrow> (Inr (Some (json_wrap ''{'' ''}'' gap (indent @ gap) ms)), h2)))"
          using t' c' v2 VRef fn ia al oe st se' sm' by simp
        have R: "SerializeJSONProperty (Suc n) rep gap stack indent h key v
                 = (if is_function h1 a then (Inr None, h1)
                    else if a \<in> set stack then (Inl TypeError, h1)
                    else if isArray h1 (VRef a) then
                      (case (re, he) of
                         (Inl e, h2) \<Rightarrow> (Inl e, h2)
                       | (Inr ms, h2) \<Rightarrow> (Inr (Some (json_wrap ''['' '']'' gap (indent @ gap) ms)), h2))
                    else
                      (case (rm, hm) of
                         (Inl e, h2) \<Rightarrow> (Inl e, h2)
                       | (Inr ms, h2) \<Rightarrow> (Inr (Some (json_wrap ''{'' ''}'' gap (indent @ gap) ms)), h2)))"
          using v1 c v2 VRef se sm by simp
        show ?thesis unfolding L R by (cases re; cases rm; simp)
      qed (use v1 t' c c' v2 in simp_all)
    qed
  qed
qed

lemma jsonReplacer_relocate:
  assumes fe: "\<And>h key v. k \<le> length h \<Longrightarrow>
                 fmt_formatError self (relocate k j h) key (shift_value k (length j) v)
                   = map_prod (map_sum id (shift_value k (length j))) (relocate k j)
                       (fmt_formatError self h key v)"
      and l: "k \<le> length h"
  shows "jsonReplacer self (relocate k j h) key (shift_value k (length j) v)
         = map_prod (map_sum id (shift_value k (length j))) (relocate k j) (jsonReplacer self h key v)"
proof -
  have b: "(case shift_value k (length j) v of
              VBigInt n \<Rightarrow> (Inr (VStr (show_int n)), relocate k j h)
            | _ \<Rightarrow> (Inr (shift_value k (length j) v), relocate k j h))
           = map_prod (map_sum id (shift_value k (length j))) (relocate k j)
               (case v of VBigInt n \<Rightarrow> (Inr (VStr (show_int n)), h) | _ \<Rightarrow> (Inr v, h))"
    by (cases v) simp_all
  show ?thesis
    unfolding jsonReplacer_def typeof_relocate[OF l] instanceof_RegExp_relocate[OF l]
      instanceof_Promise_relocate[OF l] instanceof_Error_relocate[OF l]
      regexp_text_relocate[OF l] b fe[OF l]
    by simp
qed

lemma allocates_only_length:
  assumes "allocates_only fmt" and "fmt_formatLogData fmt h v = (r, h')"
  shows "length h \<le> length h'"
proof -
  have "extends h (snd (fmt_formatLogData fmt h v))" using assms(1) by (simp add: allocates_only_def)
  then show ?thesis using assms(2) by (simp add: extends_def)
qed

lemma formatLogData_relocate:
  assumes si: "stable_inspector insp"
      and fe: "\<And>h key v. k \<le> length h \<Longrightarrow>
                 fmt_formatError self (relocate k j h) key (shift_value k (length j) v)
                   = map_prod (map_sum id (shift_value k (length j))) (relocate k j)
                       (fmt_formatError self h key v)"
      and a: "allocates_only self"
      and l: "k \<le> length h"
  shows "formatLogData insp this n self (relocate k j h) (shift_value k (length j) v)
         = map_prod id (relocate k j) (formatLogData insp this n self h v)"
proof (cases "typeof h v = TObject")
  case False
  then show ?thesis
    using l
    by (cases "template_literal h v")
       (simp_all add: formatLogData_def typeof_relocate template_literal_relocate)
next
  case True
  let ?rep = "jsonReplacer self"
  let ?J = "JSON_stringify n ?rep (jsonStringifySpace this) h v"
  have ra: "only_allocates ?rep" using a by (rule only_allocates_jsonReplacer)
  have rep: "\<And>h key v. k \<le> length h \<Longrightarrow>
                  ?rep (relocate k j h) key (shift_value k (length j) v)
                    = map_prod (map_sum id (shift_value k (length j))) (relocate k j) (?rep h key v)"
    using jsonReplacer_relocate[of k self j, OF fe] by blast
  obtain r h1 where J: "?J = (r, h1)" by (cases ?J)
  have J': "JSON_stringify n ?rep (jsonStringifySpace this) (relocate k j h) (shift_value k (length j) v)
            = (r, relocate k j h1)"
    using SerializeJSONProperty_relocate[of k ?rep j, OF rep ra l, of n
        "gap_of (jsonStringifySpace this)" "[]" "[]" "[]" v] J
    by (simp add: JSON_stringify_def)
  have oa: "only_allocates (SerializeJSONProperty n ?rep (gap_of (jsonStringifySpace this)) [] [])"
    using ra by (rule only_allocates_SerializeJSONProperty)
  have l1: "k \<le> length h1"
    using only_allocates_length[OF oa, of h "[]" v r h1] J l by (simp add: JSON_stringify_def)
  have i: "insp (inspectOptions this) (relocate k j h1) (shift_value k (length j) v)
           = insp (inspectOptions this) h1 v"
    using si l1 unfolding stable_inspector_def by blast
  show ?thesis
    using True l J J' i
    by (cases r) (simp_all add: formatLogData_def typeof_relocate formatWithInspect_def)
qed

lemma shift_text_value [simp]: "shift_value k n (text_value t) = text_value t"
  by (cases t) (simp_all add: text_value_def)

lemma copy_error_keys_relocate:
  assumes fl: "\<And>h v. k \<le> length h \<Longrightarrow>
                 fmt_formatLogData fmt (relocate k j h) (shift_value k (length j) v)
                   = map_prod id (relocate k j) (fmt_formatLogData fmt h v)"
      and a: "allocates_only fmt"
  shows "k \<le> length h \<Longrightarrow>
         copy_error_keys fmt (shift_addr k (length j) err) (shift_addr k (length j) errObject)
           (relocate k j h) keys
         = map_prod id (relocate k j) (copy_error_keys fmt err errObject h keys)"
proof (induction keys arbitrary: h)
  case Nil
  then show ?case by simp
next
  case (Cons key keys)
  show ?case
  proof (cases "has_property h errObject key")
    case True
    then show ?thesis using Cons by (simp add: has_property_relocate)
  next
    case False
    show ?thesis
    proof (cases "Get h err key")
      case (Inl x)
      then show ?thesis using False Cons.prems by (simp add: has_property_relocate Get_relocate)
    next
      case (Inr v)
      obtain r h1 where c: "fmt_formatLogData fmt h v = (r, h1)"
        by (cases "fmt_formatLogData fmt h v")
      have l1: "k \<le> length h1" using allocates_only_length[OF a c] Cons.prems by simp
      have c': "fmt_formatLogData fmt (relocate k j h) (shift_value k (length j) v)
                = (r, relocate k j h1)"
        using fl[OF Cons.prems, of v] c by simp
      show ?thesis
      proof (cases r)
        case (Inl x)
        then show ?thesis
          using False Inr c c' Cons.prems by (simp add: has_property_relocate Get_relocate)
      next
        case t: (Inr t)
        have hs: "heap_set (relocate k j h1) (shift_addr k (length j) errObject) key (text_value t)
                  = relocate k j (heap_set h1 errObject key (text_value t))"
          using heap_set_relocate[OF l1, of j errObject key "text_value t"] by simp
        have l2: "k \<le> length (heap_set h1 errObject key (text_value t))" using l1 by simp
        show ?thesis
          using False Inr c c' t hs Cons.IH[OF l2] Cons.prems
          by (simp add: has_property_relocate Get_relocate)
      qed
    qed
  qed
qed

lemma merge_error_properties_relocate:
  assumes fl: "\<And>h v. k \<le> length h \<Longrightarrow>
                 fmt_formatLogData fmt (relocate k j h) (shift_value k (length j) v)
                   = map_prod id (relocate k j) (fmt_formatLogData fmt h v)"
      and a: "allocates_only fmt"
      and l: "k \<le> length h"
  shows "merge_error_properties fmt (shift_addr k (length j) err) (shift_addr k (length j) errObject)
           (relocate k j h)
         = map_prod id (relocate k j) (merge_error_properties fmt err errObject h)"
proof -
  let ?g = "if has_property h err ''toJSON'' then Get h err ''toJSON'' else Inr VUndefined"
  have g: "(if has_property (relocate k j h) (shift_addr k (length j) err) ''toJSON''
            then Get (relocate k j h) (shift_addr k (length j) err) ''toJSON'' else Inr VUndefined)
           = map_sum id (shift_value k (length j)) ?g"
    using l by (simp add: has_property_relocate Get_relocate)
  show ?thesis
  proof (cases ?g)
    case (Inl x)
    then show ?thesis using g by (simp add: merge_error_properties_def)
  next
    case (Inr t)
    show ?thesis
    proof (cases "callable h t")
      case None
      have fk: "for_in_keys (props (obj_at (relocate k j h) (shift_addr k (length j) err)))
                = for_in_keys (props (obj_at h err))"
        using l by (simp add: obj_at_relocate for_in_keys_shift)
      show ?thesis
        unfolding merge_error_properties_def g Inr
        using None callable_relocate[OF l, of j t] fk
          copy_error_keys_relocate[of k fmt j, OF fl a l, of err errObject "for_in_keys (props (obj_at h err))"]
        by simp
    next
      case (Some r)
      show ?thesis
      proof (cases "call r")
        case (Inl x)
        then show ?thesis
          unfolding merge_error_properties_def g Inr
          using Some callable_relocate[OF l, of j t] by (simp add: call_shift)
      next
        case json: (Inr json)
        show ?thesis
          unfolding merge_error_properties_def g Inr
          using Some callable_relocate[OF l, of j t] json
            Object_assign_relocate[OF l, of j errObject json]
          by (simp add: call_shift)
      qed
    qed
  qed
qed

lemma render_text_relocate:
  assumes fl: "\<And>h v. k \<le> length h \<Longrightarrow>
                 fmt_formatLogData fmt (relocate k j h) (shift_value k (length j) v)
                   = map_prod id (relocate k j) (fmt_formatLogData fmt h v)"
      and l: "k \<le> length h"
  shows "(case fmt_formatLogData fmt (relocate k j h) (shift_value k (length j) v) of
            (r, h3) \<Rightarrow> (map_sum id text_value r, h3))
         = map_prod (map_sum id (shift_value k (length j))) (relocate k j)
             (case fmt_formatLogData fmt h v of (r, h3) \<Rightarrow> (map_sum id text_value r, h3))"
proof -
  obtain r h3 where c: "fmt_formatLogData fmt h v = (r, h3)" by (cases "fmt_formatLogData fmt h v")
  show ?thesis using fl[OF l, of v] c by (cases r) simp_all
qed

lemma errorToObject_relocate:
  assumes fl: "\<And>h v. k \<le> length h \<Longrightarrow>
                 fmt_formatLogData fmt (relocate k j h) (shift_value k (length j) v)
                   = map_prod id (relocate k j) (fmt_formatLogData fmt h v)"
      and a: "allocates_only fmt"
  shows "k \<le> length h \<Longrightarrow>
         errorToObject n fmt (relocate k j h) (shift_addr k (length j) err)
         = map_prod (map_sum id (shift_value k (length j))) (relocate k j)
             (errorToObject n fmt h err)"
proof (induction n arbitrary: h err)
  case 0
  then show ?case by simp
next
  case (Suc n)
  let ?s = "shift_value k (length j)"
  let ?sa = "shift_addr k (length j)"
  note l = Suc.prems
  show ?case
  proof (cases "Get h err ''name''")
    case (Inl x)
    then show ?thesis using l by (simp add: Get_relocate)
  next
    case name: (Inr name)
    show ?thesis
    proof (cases "Get h err ''message''")
      case (Inl x)
      then show ?thesis using l name by (simp add: Get_relocate)
    next
      case message: (Inr message)
      show ?thesis
      proof (cases "Get h err ''stack''")
        case (Inl x)
        then show ?thesis using l name message by (simp add: Get_relocate)
      next
        case stack: (Inr stack)
        let ?ob = "\<lparr>cls = OrdinaryObject,
                     props = [(''name'', OwnEnumerable, Data name),
                              (''message'', OwnEnumerable, Data message),
                              (''stack'', OwnEnumerable, Data stack)]\<rparr>"
        let ?ob' = "\<lparr>cls = OrdinaryObject,
                     props = [(''name'', OwnEnumerable, Data (?s name)),
                              (''message'', OwnEnumerable, Data (?s message)),
                              (''stack'', OwnEnumerable, Data (?s stack))]\<rparr>"
        let ?eo = "length h"
        let ?h1 = "h @ [?ob]"
        have ar: "alloc h ?ob = (?eo, ?h1)" by (simp add: alloc_def)
        have al: "alloc (relocate k j h) ?ob' = (?sa ?eo, relocate k j ?h1)"
          using alloc_relocate[OF l, of j ?ob] by simp
        have l1: "k \<le> length ?h1" using l by simp
        have e1: "extends h ?h1" by (simp add: extends_append)
        obtain r2 h2 where m: "merge_error_properties fmt err ?eo ?h1 = (r2, h2)"
          by (cases "merge_error_properties fmt err ?eo ?h1")
        have m': "merge_error_properties fmt (?sa err) (?sa ?eo) (relocate k j ?h1)
                  = (r2, relocate k j h2)"
          using merge_error_properties_relocate[of k fmt j, OF fl a l1, of err ?eo] m by simp
        have e2: "extends h h2"
          using extends_merge_error_properties[OF a _ e1, of ?eo err] m by simp
        have l2: "k \<le> length h2" using extends_length[OF e2] l by simp
        show ?thesis
        proof (cases r2)
          case (Inl x)
          then show ?thesis
            using l name message stack ar al m m' by (simp add: Get_relocate)
        next
          case u: (Inr u)
          have g2: "Get (relocate k j h2) (?sa err) ''cause'' = map_sum id ?s (Get h2 err ''cause'')"
            using l2 by (rule Get_relocate)
          show ?thesis
          proof (cases "Get h2 err ''cause''")
            case (Inl x)
            then show ?thesis
              using l name message stack ar al m m' u g2 by (simp add: Get_relocate)
          next
            case cause: (Inr cause)
            show ?thesis
            proof (cases "truthy cause")
              case False
              then show ?thesis
                using l name message stack ar al m m' u g2 cause by (simp add: Get_relocate)
            next
              case True
              let ?c = "(case cause of
                          VRef c \<Rightarrow>
                            if instanceof_Error h2 cause then errorToObject n fmt h2 c
                            else (case fmt_formatLogData fmt h2 cause of
                                    (r, h3) \<Rightarrow> (map_sum id text_value r, h3))
                        | _ \<Rightarrow>
                            (case fmt_formatLogData fmt h2 cause of
                               (r, h3) \<Rightarrow> (map_sum id text_value r, h3)))"
              let ?c' = "(case ?s cause of
                          VRef c \<Rightarrow>
                            if instanceof_Error (relocate k j h2) (?s cause)
                            then errorToObject n fmt (relocate k j h2) c
                            else (case fmt_formatLogData fmt (relocate k j h2) (?s cause) of
                                    (r, h3) \<Rightarrow> (map_sum id text_value r, h3))
                        | _ \<Rightarrow>
                            (case fmt_formatLogData fmt (relocate k j h2) (?s cause) of
                               (r, h3) \<Rightarrow> (map_sum id text_value r, h3)))"
              have rt: "(case fmt_formatLogData fmt (relocate k j h2) (?s cause) of
                           (r, h3) \<Rightarrow> (map_sum id text_value r, h3))
                        = map_prod (map_sum id ?s) (relocate k j)
                            (case fmt_formatLogData fmt h2 cause of
                               (r, h3) \<Rightarrow> (map_sum id text_value r, h3))"
                using fl l2 by (rule render_text_relocate)
              have ie: "instanceof_Error (relocate k j h2) (?s cause) = instanceof_Error h2 cause"
                using l2 by (rule instanceof_Error_relocate)
              have cc: "?c' = map_prod (map_sum id ?s) (relocate k j) ?c"
              proof (cases cause)
                case (VRef c)
                have "?c' = (if instanceof_Error h2 cause
                             then errorToObject n fmt (relocate k j h2) (?sa c)
                             else map_prod (map_sum id ?s) (relocate k j)
                                    (case fmt_formatLogData fmt h2 cause of
                                       (r, h3) \<Rightarrow> (map_sum id text_value r, h3)))"
                  unfolding rt ie using VRef by simp
                also have "\<dots> = map_prod (map_sum id ?s) (relocate k j) ?c"
                  using VRef Suc.IH[OF l2, of c] by (simp add: id_def)
                finally show ?thesis .
              next
                case VUndefined
                then show ?thesis using rt by simp
              next
                case VNull
                then show ?thesis using rt by simp
              next
                case (VBool b)
                then show ?thesis using rt by simp
              next
                case (VNum i)
                then show ?thesis using rt by simp
              next
                case (VStr x)
                then show ?thesis using rt by simp
              next
                case (VBigInt i)
                then show ?thesis using rt by simp
              next
                case (VSymbol d)
                then show ?thesis using rt by simp
              qed
              obtain r3 h3 where c: "?c = (r3, h3)" by (cases ?c)
              have c': "?c' = (map_sum id ?s r3, relocate k j h3)" using cc c by simp
              have f: "extends h (snd (fmt_formatLogData fmt h2 cause))"
                using a e2 unfolding allocates_only_def by (blast intro: extends_trans)
              have "extends h (snd ?c)"
                using f extends_errorToObject[OF a e2] by (auto split: jsval.splits prod.splits)
              then have l3: "k \<le> length h3" using c extends_length[of h h3] l by simp
              have L: "errorToObject (Suc n) fmt (relocate k j h) (?sa err)
                       = (case ?c' of
                            (Inl e, h3) \<Rightarrow> (Inl e, h3)
                          | (Inr c, h3) \<Rightarrow>
                              (case assign_property h3 (?sa ?eo) ''cause'' c of
                                 (Inl e, h4) \<Rightarrow> (Inl e, h4)
                               | (Inr u', h4) \<Rightarrow> (Inr (VRef (?sa ?eo)), h4)))"
                using l name message stack al m' u g2 cause True
                by (simp add: Get_relocate del: shift_value_simps)
              have R: "errorToObject (Suc n) fmt h err
                       = (case ?c of
                            (Inl e, h3) \<Rightarrow> (Inl e, h3)
                          | (Inr c, h3) \<Rightarrow>
                              (case assign_property h3 ?eo ''cause'' c of
                                 (Inl e, h4) \<Rightarrow> (Inl e, h4)
                               | (Inr u', h4) \<Rightarrow> (Inr (VRef ?eo), h4)))"
                using name message stack ar m u cause True by simp
              show ?thesis
              proof (cases r3)
                case (Inl x)
                then show ?thesis unfolding L R c c' by simp
              next
                case cv: (Inr cv)
                obtain r4 h4 where ap: "assign_property h3 ?eo ''cause'' cv = (r4, h4)"
                  by (cases "assign_property h3 ?eo ''cause'' cv")
                have ap': "assign_property (relocate k j h3) (?sa ?eo) ''cause'' (?s cv)
                           = (r4, relocate k j h4)"
                  using assign_property_relocate[OF l3, of j ?eo "''cause''" cv] ap by simp
                show ?thesis
                  unfolding L R c c' using cv ap ap' by (cases r4) simp_all
              qed
            qed
          qed
        qed
      qed
    qed
  qed
qed

lemma formatError_relocate:
  assumes fl: "\<And>h v. k \<le> length h \<Longrightarrow>
                 fmt_formatLogData self (relocate k j h) (shift_value k (length j) v)
                   = map_prod id (relocate k j) (fmt_formatLogData self h v)"
      and a: "allocates_only self"
      and l: "k \<le> length h"
  shows "formatError n self (relocate k j h) key (shift_value k (length j) v)
         = map_prod (map_sum id (shift_value k (length j))) (relocate k j)
             (formatError n self h key v)"
  using errorToObject_relocate[of k self j, OF fl a l]
  by (cases v) (simp_all add: formatError_def)

lemma relocatable_JsonLogFormatter:
  assumes si: "stable_inspector insp"
  shows "relocatable (JsonLogFormatter_methods insp this n)"
proof (induction n)
  case 0
  show ?case by (simp add: relocatable_def)
next
  case (Suc n)
  let ?self = "JsonLogFormatter_methods insp this n"
  have a: "allocates_only ?self" by (rule allocates_only_JsonLogFormatter)
  have fl: "\<And>k j h v. k \<le> length h \<Longrightarrow>
                 fmt_formatLogData ?self (relocate k j h) (shift_value k (length j) v)
                   = map_prod id (relocate k j) (fmt_formatLogData ?self h v)"
    using Suc unfolding relocatable_def by blast
  have fe: "\<And>k j h key v. k \<le> length h \<Longrightarrow>
                 fmt_formatError ?self (relocate k j h) key (shift_value k (length j) v)
                   = map_prod (map_sum id (shift_value k (length j))) (relocate k j)
                       (fmt_formatError ?self h key v)"
    using Suc unfolding relocatable_def by blast
  have 1: "formatLogData insp this n ?self (relocate k j h) (shift_value k (length j) v)
           = map_prod id (relocate k j) (formatLogData insp this n ?self h v)"
    if "k \<le> length h" for k j h v
    using formatLogData_relocate[of insp k ?self j, OF si fe a that] by blast
  have 2: "formatError n ?self (relocate k j h) key (shift_value k (length j) v)
           = map_prod (map_sum id (shift_value k (length j))) (relocate k j)
               (formatError n ?self h key v)"
    if "k \<le> length h" for k j h key v
    using formatError_relocate[of k ?self j, OF fl a that] by blast
  show ?case
    unfolding relocatable_def fmt_formatLogData_methods fmt_formatError_methods
    using 1 2 by blast
qed

lemma new_logData_relocate:
  assumes sa: "stable_accessor k this" and l: "k \<le> length h"
  shows "new_logData this level message (relocate k j h)
         = map_prod (shift_addr k (length j)) (relocate k j) (new_logData this level message h)"
proof -
  let ?ob = "\<lparr>cls = OrdinaryObject,
               props = [(''level'', OwnEnumerable, Data (VNum (int (level_num level)))),
                        (''message'', OwnEnumerable, Data (VStr message))]\<rparr>"
  let ?h1 = "h @ [?ob]"
  have ar: "alloc h ?ob = (length h, ?h1)" by (simp add: alloc_def)
  have al: "alloc (relocate k j h) ?ob = (shift_addr k (length j) (length h), relocate k j ?h1)"
    using alloc_relocate[OF l, of j ?ob] by simp
  have l1: "k \<le> length ?h1" using l by simp
  let ?c = "case cfg_getLogContext this of None \<Rightarrow> VUndefined | Some f \<Rightarrow> f ?h1"
  have c: "(case cfg_getLogContext this of None \<Rightarrow> VUndefined | Some f \<Rightarrow> f (relocate k j ?h1))
           = shift_value k (length j) ?c"
    using sa l1 unfolding stable_accessor_def by (cases "cfg_getLogContext this") auto
  have hs: "heap_set (relocate k j ?h1) (shift_addr k (length j) (length h)) ''context''
              (shift_value k (length j) ?c)
            = relocate k j (heap_set ?h1 (length h) ''context'' ?c)"
    using l1 by (rule heap_set_relocate)
  show ?thesis
    unfolding new_logData_def ar al Let_def prod.case c truthy_shift hs by simp
qed

lemma data_source_relocate:
  assumes fe: "\<And>h key v. k \<le> length h \<Longrightarrow>
                 fmt_formatError fmt (relocate k j h) key (shift_value k (length j) v)
                   = map_prod (map_sum id (shift_value k (length j))) (relocate k j)
                       (fmt_formatError fmt h key v)"
      and l: "k \<le> length h"
  shows "data_source fmt (relocate k j h) (shift_value k (length j) data)
         = map_prod (map_sum id (shift_value k (length j))) (relocate k j) (data_source fmt h data)"
proof -
  let ?ob = "\<lparr>cls = OrdinaryObject, props = [(''data'', OwnEnumerable, Data data)]\<rparr>"
  have al: "alloc (relocate k j h)
              \<lparr>cls = OrdinaryObject,
               props = [(''data'', OwnEnumerable, Data (shift_value k (length j) data))]\<rparr>
            = (shift_addr k (length j) (length h), relocate k j (h @ [?ob]))"
    using alloc_relocate[OF l, of j ?ob] by simp
  have ar: "alloc h ?ob = (length h, h @ [?ob])" by (simp add: alloc_def)
  show ?thesis
    unfolding data_source_def instanceof_Error_relocate[OF l] isObject_relocate[OF l]
      fe[OF l] al ar
    by simp
qed

lemma build_data_relocate:
  assumes fe: "\<And>h key v. k \<le> length h \<Longrightarrow>
                 fmt_formatError fmt (relocate k j h) key (shift_value k (length j) v)
                   = map_prod (map_sum id (shift_value k (length j))) (relocate k j)
                       (fmt_formatError fmt h key v)"
      and a: "allocates_only fmt"
      and l: "k \<le> length h"
  shows "build_data fmt (shift_value k (length j) sc) (shift_value k (length j) data) (relocate k j h)
         = map_prod (map_sum id (shift_addr k (length j))) (relocate k j) (build_data fmt sc data h)"
proof -
  let ?s = "shift_value k (length j)"
  let ?sa = "shift_addr k (length j)"
  let ?d = "length h"
  let ?h1 = "h @ [empty_object]"
  have ar: "alloc h empty_object = (?d, ?h1)" by (simp add: alloc_def)
  have al: "alloc (relocate k j h) empty_object = (?sa ?d, relocate k j ?h1)"
    using alloc_relocate[OF l, of j empty_object] by simp
  have l1: "k \<le> length ?h1" using l by simp
  obtain r2 h2 where c: "CopyDataProperties ?h1 ?d sc = (r2, h2)"
    by (cases "CopyDataProperties ?h1 ?d sc")
  have c': "CopyDataProperties (relocate k j ?h1) (?sa ?d) (?s sc) = (r2, relocate k j h2)"
    using CopyDataProperties_relocate[OF l1, of j ?d sc] c by simp
  have "length h2 = length ?h1" using length_CopyDataProperties[of ?h1 ?d sc] c by simp
  then have l2: "k \<le> length h2" using l by simp
  obtain r3 h3 where ds: "data_source fmt h2 data = (r3, h3)" by (cases "data_source fmt h2 data")
  have ds': "data_source fmt (relocate k j h2) (?s data) = (map_sum id ?s r3, relocate k j h3)"
    using data_source_relocate[of k fmt j, OF fe l2, of data] ds by simp
  have "extends h2 h3" using extends_data_source[OF a extends_refl, of h2 data] ds by simp
  then have l3: "k \<le> length h3" using extends_length[of h2 h3] l2 by simp
  show ?thesis
  proof (cases r2)
    case (Inl x)
    then show ?thesis unfolding build_data_def ar al using c c' by simp
  next
    case u: (Inr u)
    show ?thesis
    proof (cases r3)
      case (Inl x)
      then show ?thesis unfolding build_data_def ar al using c c' u ds ds' by simp
    next
      case src: (Inr src)
      obtain r4 h4 where o: "Object_assign h3 ?d src = (r4, h4)"
        by (cases "Object_assign h3 ?d src")
      have o': "Object_assign (relocate k j h3) (?sa ?d) (?s src) = (r4, relocate k j h4)"
        using Object_assign_relocate[OF l3, of j ?d src] o by simp
      show ?thesis
        unfolding build_data_def ar al using c c' u ds ds' src o o' by (cases r4) simp_all
    qed
  qed
qed

lemma getLogData_relocate:
  assumes fe: "\<And>h key v. k \<le> length h \<Longrightarrow>
                 fmt_formatError fmt (relocate k j h) key (shift_value k (length j) v)
                   = map_prod (map_sum id (shift_value k (length j))) (relocate k j)
                       (fmt_formatError fmt h key v)"
      and a: "allocates_only fmt"
      and sa: "stable_accessor k this"
      and l: "k \<le> length h"
  shows "getLogData this level message (shift_value k (length j) data) (shift_value k (length j) sc)
           fmt (relocate k j h)
         = map_prod (map_sum id (shift_addr k (length j))) (relocate k j)
             (getLogData this level message data sc fmt h)"
proof -
  let ?s = "shift_value k (length j)"
  let ?sa = "shift_addr k (length j)"
  obtain r0 hn where n: "new_logData this level message h = (r0, hn)"
    by (cases "new_logData this level message h")
  have n': "new_logData this level message (relocate k j h) = (?sa r0, relocate k j hn)"
    using new_logData_relocate[OF sa l, of level message j] n by simp
  have "length hn = Suc (length h)" using length_new_logData[of this level message h] n by simp
  then have ln: "k \<le> length hn" using l by simp
  obtain rb hb where b: "build_data fmt sc data hn = (rb, hb)" by (cases "build_data fmt sc data hn")
  have b': "build_data fmt (?s sc) (?s data) (relocate k j hn)
            = (map_sum id ?sa rb, relocate k j hb)"
    using build_data_relocate[of k fmt j, OF fe a ln, of sc data] b by simp
  have "extends hn hb"
    using extends_build_data[OF a extends_refl, where sc = sc and data = data and h = hn] b by simp
  then have lb: "k \<le> length hb" using extends_length[of hn hb] ln by simp
  show ?thesis
  proof (cases "truthy data \<or> truthy sc")
    case False
    then show ?thesis unfolding getLogData_def n n' by simp
  next
    case True
    show ?thesis
    proof (cases rb)
      case (Inl x)
      then show ?thesis unfolding getLogData_def n n' using True b b' by simp
    next
      case (Inr d)
      have hs: "heap_set (relocate k j hb) (?sa r0) ''data'' (VRef (?sa d))
                = relocate k j (heap_set hb r0 ''data'' (VRef d))"
        using heap_set_relocate[OF lb, of j r0 "''data''" "VRef d"] by simp
      show ?thesis unfolding getLogData_def n n' using True b b' Inr hs by simp
    qed
  qed
qed

lemma shift_value_valid: "valid_value h v \<Longrightarrow> shift_value (length h) n v = v"
  by (cases v) (simp_all add: valid_value_def shift_addr_def)

lemma shift_slot_valid: "slot_valid h s \<Longrightarrow> shift_slot (length h) n s = s"
proof (cases s)
  case (Data v)
  then show "slot_valid h s \<Longrightarrow> shift_slot (length h) n s = s"
    by (simp add: slot_valid_def shift_value_valid)
next
  case (Getter r)
  then show "slot_valid h s \<Longrightarrow> shift_slot (length h) n s = s"
    by (cases r) (simp_all add: slot_valid_def shift_value_valid)
qed

lemma shift_object_valid:
  assumes "object_valid h ob"
  shows "shift_object (length h) n ob = ob"
proof -
  have p: "list_all (\<lambda>(k, vis, s). slot_valid h s) (props ob)"
    using assms by (simp add: object_valid_def)
  have "shift_props (length h) n ps = ps" if "list_all (\<lambda>(k, vis, s). slot_valid h s) ps" for ps
    using that by (induction ps) (auto simp: shift_slot_valid)
  then have 1: "shift_props (length h) n (props ob) = props ob" using p by blast
  have 2: "shift_class (length h) n (cls ob) = cls ob"
  proof (cases "cls ob")
    case (FunctionObject src r)
    then show ?thesis
      using assms by (cases r) (simp_all add: object_valid_def shift_value_valid)
  qed simp_all
  show ?thesis using 1 2 by (simp add: shift_object_def)
qed

lemma relocate_extends:
  assumes c: "closed_heap h" and e: "extends h ha"
  shows "relocate (length h) j ha
         = h @ j @ map (shift_object (length h) (length j)) (drop (length h) ha)"
proof -
  have t: "take (length h) ha = h" using e by (simp add: extends_def)
  have "map (shift_object (length h) (length j)) h = h"
    using c unfolding closed_heap_def by (intro map_idI) (simp add: list_all_iff shift_object_valid)
  then show ?thesis by (simp add: relocate_def t)
qed

lemma relocate_closed: "closed_heap h \<Longrightarrow> relocate (length h) j h = h @ j"
  using relocate_extends[of h h j] by simp

lemma data_field_relocate:
  assumes l: "k \<le> length h"
  shows "data_field (relocate k j h) (shift_addr k (length j) r)
         = map_option (shift_props k (length j)) (data_field h r)"
proof (cases "Get h r ''data''")
  case (Inl x)
  then show ?thesis using Get_relocate[OF l, of j r "''data''"] by (simp add: data_field_def)
next
  case (Inr v)
  then show ?thesis
    using Get_relocate[OF l, of j r "''data''"] l
    by (cases v) (simp_all add: data_field_def obj_at_relocate)
qed

text \<open>A second call in a store with more objects.\<close>

lemma successive_getLogData:
  assumes a: "allocates_only fmt" and r: "relocatable fmt" and sa: "stable_accessor (length h) this"
      and c: "closed_heap h" and vd: "valid_value h data" and vs: "valid_value h sc"
      and g: "getLogData this level message data sc fmt h = (ra, ha)"
  shows "extends h ha"
    and "getLogData this level message data sc fmt (h @ j)
         = (map_sum id (shift_addr (length h) (length j)) ra,
            h @ j @ map (shift_object (length h) (length j)) (drop (length h) ha))"
proof -
  show e: "extends h ha"
    using extends_getLogData[OF a extends_refl, of h this level message data sc] g by simp
  have fe': "\<And>h' key v. length h \<le> length h' \<Longrightarrow>
                 fmt_formatError fmt (relocate (length h) j h') key (shift_value (length h) (length j) v)
                   = map_prod (map_sum id (shift_value (length h) (length j))) (relocate (length h) j)
                       (fmt_formatError fmt h' key v)"
    using r unfolding relocatable_def by blast
  have "getLogData this level message (shift_value (length h) (length j) data)
          (shift_value (length h) (length j) sc) fmt (relocate (length h) j h)
        = map_prod (map_sum id (shift_addr (length h) (length j))) (relocate (length h) j)
            (getLogData this level message data sc fmt h)"
    using getLogData_relocate[of "length h" fmt j, OF fe' a sa, of h level message data sc] by simp
  then show "getLogData this level message data sc fmt (h @ j)
         = (map_sum id (shift_addr (length h) (length j)) ra,
            h @ j @ map (shift_object (length h) (length j)) (drop (length h) ha))"
    unfolding shift_value_valid[OF vd] shift_value_valid[OF vs] relocate_closed[OF c] g
    using relocate_extends[OF c e, of j] by simp
qed

lemma stable_sample_inspector: "stable_inspector sample_inspector"
  by (simp add: stable_inspector_def sample_inspector_def)

text \<open>
  C10. A log call changes no object that existed before it: with a formatter that only
  allocates (as the JSON formatter does), the store after the call extends the store
  before it, so the logger's scope object and everything else in the store is as it
  was; the logger's configuration is a value that no method assigns. The record and its
  data object are new. Hence a second identical call assembles the same record again:
  started in a store with more objects, and so in the store that the first call leaves,
  it returns the same result and creates the same objects, at the next addresses. The
  two data fields are identical, but for the addresses of the objects that the two calls
  create, for every data, an error with its causes included. This holds for every
  formatter and context accessor that do not depend on addresses, as the JSON formatter
  does not.
\<close>

theorem log_leaves_store_unchanged:
  assumes "allocates_only (cfg_formatter this)"
  shows "extends (w_heap w) (w_heap (snd (log this verbosity message data w)))
         \<and> (\<forall>a. a < length (w_heap w) \<longrightarrow>
                obj_at (w_heap (snd (log this verbosity message data w))) a = obj_at (w_heap w) a)
         \<and> (relocatable (cfg_formatter this) \<and> stable_accessor (length h) this \<and> closed_heap h
              \<and> valid_value h data \<and> valid_value h (cfg_scope this)
              \<and> getLogData this level message data (cfg_scope this) (cfg_formatter this) h = (ra, ha)
            \<longrightarrow> extends h ha
              \<and> getLogData this level message data (cfg_scope this) (cfg_formatter this) (h @ j)
                  = (map_sum id (shift_addr (length h) (length j)) ra,
                     h @ j @ map (shift_object (length h) (length j)) (drop (length h) ha))
              \<and> getLogData this level message data (cfg_scope this) (cfg_formatter this) ha
                  = (map_sum id (shift_addr (length h) (length ha - length h)) ra,
                     ha @ map (shift_object (length h) (length ha - length h)) (drop (length h) ha))
              \<and> (\<forall>r. ra = Inr r \<longrightarrow>
                   data_field (ha @ map (shift_object (length h) (length ha - length h))
                                      (drop (length h) ha))
                     (shift_addr (length h) (length ha - length h) r)
                   = map_option (shift_props (length h) (length ha - length h)) (data_field ha r)))"
proof -
  have 1: "extends (w_heap w) (w_heap (snd (log this verbosity message data w)))"
    using assms by (rule extends_log)
  have 2: "\<forall>a. a < length (w_heap w) \<longrightarrow>
                obj_at (w_heap (snd (log this verbosity message data w))) a = obj_at (w_heap w) a"
    using extends_obj_at[OF 1] by blast
  have 3: "relocatable (cfg_formatter this) \<and> stable_accessor (length h) this \<and> closed_heap h
              \<and> valid_value h data \<and> valid_value h (cfg_scope this)
              \<and> getLogData this level message data (cfg_scope this) (cfg_formatter this) h = (ra, ha)
            \<longrightarrow> extends h ha
              \<and> getLogData this level message data (cfg_scope this) (cfg_formatter this) (h @ j)
                  = (map_sum id (shift_addr (length h) (length j)) ra,
                     h @ j @ map (shift_object (length h) (length j)) (drop (length h) ha))
              \<and> getLogData this level message data (cfg_scope this) (cfg_formatter this) ha
                  = (map_sum id (shift_addr (length h) (length ha - length h)) ra,
                     ha @ map (shift_object (length h) (length ha - length h)) (drop (length h) ha))
              \<and> (\<forall>r. ra = Inr r \<longrightarrow>
                   data_field (ha @ map (shift_object (length h) (length ha - length h))
                                      (drop (length h) ha))
                     (shift_addr (length h) (length ha - length h) r)
                   = map_option (shift_props (length h) (length ha - length h)) (data_field ha r))"
  proof
    assume p: "relocatable (cfg_formatter this) \<and> stable_accessor (length h) this \<and> closed_heap h
              \<and> valid_value h data \<and> valid_value h (cfg_scope this)
              \<and> getLogData this level message data (cfg_scope this) (cfg_formatter this) h = (ra, ha)"
    then have r: "relocatable (cfg_formatter this)" and sa: "stable_accessor (length h) this"
      and c: "closed_heap h" and vd: "valid_value h data" and vs: "valid_value h (cfg_scope this)"
      and g: "getLogData this level message data (cfg_scope this) (cfg_formatter this) h = (ra, ha)"
      by blast+
    note s = successive_getLogData[OF assms r sa c vd vs g]
    have e: "extends h ha" by (rule s(1))
    let ?d = "drop (length h) ha"
    have hd: "h @ ?d = ha" using e append_take_drop_id[of "length h" ha] by (simp add: extends_def)
    have ld: "length ?d = length ha - length h" by simp
    have x: "h @ ?d @ xs = ha @ xs" for xs by (simp only: append_assoc[symmetric] hd)
    have b: "getLogData this level message data (cfg_scope this) (cfg_formatter this) ha
                  = (map_sum id (shift_addr (length h) (length ha - length h)) ra,
                     ha @ map (shift_object (length h) (length ha - length h)) ?d)"
      using s(2)[of ?d] by (simp only: hd x ld)
    have rl: "relocate (length h) ?d ha
              = ha @ map (shift_object (length h) (length ha - length h)) ?d"
      using relocate_extends[OF c e, of ?d] by (simp only: x ld)
    have df: "\<forall>r. ra = Inr r \<longrightarrow>
                   data_field (ha @ map (shift_object (length h) (length ha - length h)) ?d)
                     (shift_addr (length h) (length ha - length h) r)
                   = map_option (shift_props (length h) (length ha - length h)) (data_field ha r)"
      using data_field_relocate[OF extends_length[OF e], of ?d] unfolding rl ld by blast
    from e s(2)[of j] b df
    show "extends h ha
              \<and> getLogData this level message data (cfg_scope this) (cfg_formatter this) (h @ j)
                  = (map_sum id (shift_addr (length h) (length j)) ra,
                     h @ j @ map (shift_object (length h) (length j)) (drop (length h) ha))
              \<and> getLogData this level message data (cfg_scope this) (cfg_formatter this) ha
                  = (map_sum id (shift_addr (length h) (length ha - length h)) ra,
                     ha @ map (shift_object (length h) (length ha - length h)) (drop (length h) ha))
              \<and> (\<forall>r. ra = Inr r \<longrightarrow>
                   data_field (ha @ map (shift_object (length h) (length ha - length h))
                                      (drop (length h) ha))
                     (shift_addr (length h) (length ha - length h) r)
                   = map_option (shift_props (length h) (length ha - length h)) (data_field ha r))"
      by blast
  qed
  from 1 2 3 show ?thesis by blast
qed

theorem log_leaves_store_unchanged_witness:
  "allocates_only (cfg_formatter cause_example_logger)
   \<and> relocatable (cfg_formatter cause_example_logger)
   \<and> stable_accessor (length cause_example_heap) cause_example_logger
   \<and> closed_heap cause_example_heap
   \<and> valid_value cause_example_heap (VRef 2)
   \<and> valid_value cause_example_heap (cfg_scope cause_example_logger)
   \<and> instanceof_Error cause_example_heap (VRef 2)
   \<and> fst (log_info cause_example_logger ''m'' (VRef 2) (empty_world cause_example_heap)) = Inr ()
   \<and> obj_at (w_heap (snd (log_info cause_example_logger ''m'' (VRef 2)
                             (empty_world cause_example_heap)))) 0
       = obj_at cause_example_heap 0
   \<and> fst (getLogData cause_example_logger info ''m'' (VRef 2) (VRef 0) (sample_formatter True)
            cause_example_heap) = Inr 4
   \<and> length (snd (getLogData cause_example_logger info ''m'' (VRef 2) (VRef 0)
                     (sample_formatter True) cause_example_heap)) = 8
   \<and> getLogData cause_example_logger info ''m'' (VRef 2) (VRef 0) (sample_formatter True)
        (snd (getLogData cause_example_logger info ''m'' (VRef 2) (VRef 0)
                (sample_formatter True) cause_example_heap))
       = (Inr 8,
          snd (getLogData cause_example_logger info ''m'' (VRef 2) (VRef 0)
                 (sample_formatter True) cause_example_heap)
          @ map (shift_object 4 4)
              (drop 4 (snd (getLogData cause_example_logger info ''m'' (VRef 2) (VRef 0)
                              (sample_formatter True) cause_example_heap))))
   \<and> data_field
        (snd (getLogData cause_example_logger info ''m'' (VRef 2) (VRef 0) (sample_formatter True)
           (snd (getLogData cause_example_logger info ''m'' (VRef 2) (VRef 0)
                   (sample_formatter True) cause_example_heap)))) 8
       = map_option (shift_props 4 4)
           (data_field (snd (getLogData cause_example_logger info ''m'' (VRef 2) (VRef 0)
                               (sample_formatter True) cause_example_heap)) 4)
   \<and> Get (snd (getLogData cause_example_logger info ''m'' (VRef 2) (VRef 0)
                  (sample_formatter True) cause_example_heap)) 4 ''context'' = Inr (VRef 3)
   \<and> data_field (snd (getLogData cause_example_logger info ''m'' (VRef 2) (VRef 0)
                         (sample_formatter True) cause_example_heap)) 4
       = Some [data_property ''a'' (VNum 1), data_property ''name'' (VStr ''Error''),
               data_property ''message'' (VStr ''Top''),
               data_property ''stack'' (VStr ''Error: Top''), data_property ''cause'' (VRef 7)]
   \<and> props (obj_at (snd (getLogData cause_example_logger info ''m'' (VRef 2) (VRef 0)
                            (sample_formatter True) cause_example_heap)) 7)
       = [data_property ''name'' (VStr ''Error''), data_property ''message'' (VStr ''Root cause''),
          data_property ''stack'' (VStr ''Error: Root cause'')]"
proof -
  let ?L = "cause_example_logger"
  let ?H = "cause_example_heap"
  let ?G1 = "getLogData ?L info ''m'' (VRef 2) (VRef 0) (sample_formatter True) ?H"
  let ?G2 = "getLogData ?L info ''m'' (VRef 2) (VRef 0) (sample_formatter True) (snd ?G1)"
  have f: "cfg_formatter ?L = sample_formatter True" and sc: "cfg_scope ?L = VRef 0"
    and ac: "cfg_getLogContext ?L = Some (\<lambda>h. VRef 3)"
    by (simp_all add: cause_example_logger_def new_Logger_def)
  have lh: "length ?H = 4" by (simp add: cause_example_heap_def)
  have a: "allocates_only (cfg_formatter ?L)"
    by (simp add: f sample_formatter_def allocates_only_JsonLogFormatter)
  have r: "relocatable (cfg_formatter ?L)"
    by (simp add: f sample_formatter_def relocatable_JsonLogFormatter stable_sample_inspector)
  have sa: "stable_accessor (length ?H) ?L"
    by (simp add: stable_accessor_def ac lh shift_addr_def)
  have c: "closed_heap ?H" by code_simp
  have vd: "valid_value ?H (VRef 2)" by code_simp
  have vs: "valid_value ?H (cfg_scope ?L)" unfolding sc by code_simp
  have ie: "instanceof_Error ?H (VRef 2)" by code_simp
  have lr: "fst (log_info ?L ''m'' (VRef 2) (empty_world ?H)) = Inr ()" by code_simp
  have "fst ?G1 = Inr 4" by code_simp
  then have g1: "?G1 = (Inr 4, snd ?G1)" by (simp add: prod_eq_iff)
  have l1: "length (snd ?G1) = 8" by code_simp
  note t = log_leaves_store_unchanged[OF a, where w = "empty_world ?H"
      and verbosity = info and message = "''m''" and data = "VRef 2" and level = info
      and h = ?H and ra = "Inr 4" and ha = "snd ?G1" and j = "[]"]
  have 0: "(0::nat) < length (w_heap (empty_world ?H))" by code_simp
  from t 0 have o: "obj_at (w_heap (snd (log ?L info ''m'' (VRef 2) (empty_world ?H)))) 0
       = obj_at (w_heap (empty_world ?H)) 0"
    by blast
  have w: "w_heap (empty_world ?H) = ?H" by (simp add: empty_world_def)
  have p: "relocatable (cfg_formatter ?L) \<and> stable_accessor (length ?H) ?L \<and> closed_heap ?H
              \<and> valid_value ?H (VRef 2) \<and> valid_value ?H (cfg_scope ?L)
              \<and> getLogData ?L info ''m'' (VRef 2) (cfg_scope ?L) (cfg_formatter ?L) ?H
                  = (Inr 4, snd ?G1)"
    using r sa c vd vs g1 unfolding sc f by blast
  from t p have g2': "getLogData ?L info ''m'' (VRef 2) (cfg_scope ?L) (cfg_formatter ?L) (snd ?G1)
                  = (map_sum id (shift_addr (length ?H) (length (snd ?G1) - length ?H)) (Inr 4),
                     snd ?G1 @ map (shift_object (length ?H) (length (snd ?G1) - length ?H))
                                (drop (length ?H) (snd ?G1)))"
    by blast
  have g2: "?G2 = (Inr 8, snd ?G1 @ map (shift_object 4 4) (drop 4 (snd ?G1)))"
    using g2' unfolding sc f l1 lh by (simp add: shift_addr_def)
  from t p have "data_field (snd ?G1 @ map (shift_object (length ?H) (length (snd ?G1) - length ?H))
                                (drop (length ?H) (snd ?G1)))
                     (shift_addr (length ?H) (length (snd ?G1) - length ?H) 4)
                   = map_option (shift_props (length ?H) (length (snd ?G1) - length ?H))
                       (data_field (snd ?G1) 4)"
    by blast
  then have df: "data_field (snd ?G2) 8 = map_option (shift_props 4 4) (data_field (snd ?G1) 4)"
    unfolding g2 l1 lh by (simp add: shift_addr_def)
  have cx: "Get (snd ?G1) 4 ''context'' = Inr (VRef 3)" by code_simp
  have d1: "data_field (snd ?G1) 4
       = Some [data_property ''a'' (VNum 1), data_property ''name'' (VStr ''Error''),
               data_property ''message'' (VStr ''Top''),
               data_property ''stack'' (VStr ''Error: Top''), data_property ''cause'' (VRef 7)]"
    by code_simp
  have d2: "props (obj_at (snd ?G1) 7)
       = [data_property ''name'' (VStr ''Error''), data_property ''message'' (VStr ''Root cause''),
          data_property ''stack'' (VStr ''Error: Root cause'')]"
    by code_simp
  from a r sa c vd vs ie lr o g1 l1 g2 df cx d1 d2 show ?thesis
    unfolding log_info_def w by (simp add: prod_eq_iff)
qed

end
